theory Spec2Isabelle
  imports Main "HOL-Library.Word"
begin

section \<open>JavaScript strings\<close>

text \<open>
  A JavaScript string is a sequence of UTF-16 code units; \<open>.length\<close> counts code units and
  a regular expression without the \<open>u\<close> flag matches code unit by code unit.  String
  literals of the source are ASCII and are written \<open>js ''...''\<close>.
\<close>

type_synonym code_unit = "16 word"
type_synonym jsstring = "code_unit list"

definition js :: "string \<Rightarrow> jsstring" where
  "js s = map of_char s"

text \<open>
  The code units that \<open>String.prototype.trim\<close> removes and that \<open>\s\<close> matches: ECMAScript's
  WhiteSpace (TAB, VT, FF, SP, NBSP, ZWNBSP and the category Zs) and LineTerminator
  (LF, CR, LS, PS).
\<close>

definition isWhiteSpace :: "code_unit \<Rightarrow> bool" where
  "isWhiteSpace c \<longleftrightarrow>
     c = 0x0009 \<or> c = 0x000A \<or> c = 0x000B \<or> c = 0x000C \<or> c = 0x000D \<or> c = 0x0020 \<or>
     c = 0x00A0 \<or> c = 0x1680 \<or> (0x2000 \<le> c \<and> c \<le> 0x200A) \<or> c = 0x2028 \<or> c = 0x2029 \<or>
     c = 0x202F \<or> c = 0x205F \<or> c = 0x3000 \<or> c = 0xFEFF"

text \<open>\<open>value.trim()\<close>: white space removed from both ends.\<close>

definition trim :: "jsstring \<Rightarrow> jsstring" where
  "trim s = rev (dropWhile isWhiteSpace (rev (dropWhile isWhiteSpace s)))"

section \<open>Regular expressions\<close>

text \<open>
  The three regular expression literals of the component are built from character classes,
  sequencing, \<open>+\<close>, \<open>?\<close> and a bounded repetition \<open>{0,n}\<close>.  \<open>rx_test r s\<close> is
  \<open>/^r$/.test(s)\<close>: the anchors make the whole string match.  The matcher takes the
  derivative of the expression by each code unit in turn.
\<close>

datatype rx =
    Never
  | Empty
  | Cls "code_unit \<Rightarrow> bool"
  | Or rx rx
  | Then rx rx
  | Many rx

definition plus_rx :: "rx \<Rightarrow> rx" where
  "plus_rx r = Then r (Many r)"

definition opt_rx :: "rx \<Rightarrow> rx" where
  "opt_rx r = Or r Empty"

fun upto_rx :: "nat \<Rightarrow> rx \<Rightarrow> rx" where
  "upto_rx 0 r = Empty"
| "upto_rx (Suc n) r = opt_rx (Then r (upto_rx n r))"

fun nullable :: "rx \<Rightarrow> bool" where
  "nullable Never = False"
| "nullable Empty = True"
| "nullable (Cls p) = False"
| "nullable (Or r s) = (nullable r \<or> nullable s)"
| "nullable (Then r s) = (nullable r \<and> nullable s)"
| "nullable (Many r) = True"

fun deriv :: "code_unit \<Rightarrow> rx \<Rightarrow> rx" where
  "deriv c Never = Never"
| "deriv c Empty = Never"
| "deriv c (Cls p) = (if p c then Empty else Never)"
| "deriv c (Or r s) = Or (deriv c r) (deriv c s)"
| "deriv c (Then r s) =
     (if nullable r then Or (Then (deriv c r) s) (deriv c s) else Then (deriv c r) s)"
| "deriv c (Many r) = Then (deriv c r) (Many r)"

fun rx_test :: "rx \<Rightarrow> jsstring \<Rightarrow> bool" where
  "rx_test r [] = nullable r"
| "rx_test r (c # cs) = rx_test (deriv c r) cs"

text \<open>The language of an expression, used only to reason about the matcher.\<close>

definition cat :: "jsstring set \<Rightarrow> jsstring set \<Rightarrow> jsstring set" where
  "cat A B = {u @ v | u v. u \<in> A \<and> v \<in> B}"

inductive_set star :: "jsstring set \<Rightarrow> jsstring set" for A :: "jsstring set" where
  star_nil: "[] \<in> star A"
| star_app: "u \<in> A \<Longrightarrow> v \<in> star A \<Longrightarrow> u @ v \<in> star A"

fun lang :: "rx \<Rightarrow> jsstring set" where
  "lang Never = {}"
| "lang Empty = {[]}"
| "lang (Cls p) = {[c] | c. p c}"
| "lang (Or r s) = lang r \<union> lang s"
| "lang (Then r s) = cat (lang r) (lang s)"
| "lang (Many r) = star (lang r)"

section \<open>The validation engine\<close>

text \<open>
  The form record of \<open>ContactForm\<close> (\<open>formData\<close>): six string fields, filled from
  \<open>e.target.value\<close> and the select's value, and two booleans filled from the checkboxes.
\<close>

record FormData =
  name :: jsstring
  email :: jsstring
  company :: jsstring
  phone :: jsstring
  message :: jsstring
  preferred_contact_method :: jsstring
  consent_marketing :: bool
  consent_data_processing :: bool

text \<open>The keys of \<open>formData\<close>, which are also the keys of the error objects.\<close>

datatype key =
    K_name | K_email | K_company | K_phone | K_message | K_preferred_contact_method
  | K_consent_marketing | K_consent_data_processing

text \<open>
  The argument pair \<open>(name, value)\<close> of \<open>validateField\<close>, \<open>handleBlur\<close> and
  \<open>handleInputChange\<close>: a key together with a value of the type that key holds.
\<close>

datatype field_input =
    F_name jsstring
  | F_email jsstring
  | F_company jsstring
  | F_phone jsstring
  | F_message jsstring
  | F_preferred_contact_method jsstring
  | F_consent_marketing bool
  | F_consent_data_processing bool

fun key_of :: "field_input \<Rightarrow> key" where
  "key_of (F_name v) = K_name"
| "key_of (F_email v) = K_email"
| "key_of (F_company v) = K_company"
| "key_of (F_phone v) = K_phone"
| "key_of (F_message v) = K_message"
| "key_of (F_preferred_contact_method v) = K_preferred_contact_method"
| "key_of (F_consent_marketing b) = K_consent_marketing"
| "key_of (F_consent_data_processing b) = K_consent_data_processing"

text \<open>
  An error object maps keys to values.  \<open>handleInputChange\<close> stores \<open>undefined\<close> under a key,
  so a key can be present without a message.
\<close>

datatype errval = Msg jsstring | Undefined

type_synonym errors = "key \<rightharpoonup> errval"

text \<open>\<open>/^[^\s@]+@[^\s@]+\.[^\s@]+$/\<close>\<close>

definition emailRegex :: rx where
  "emailRegex =
     Then (plus_rx (Cls (\<lambda>c. \<not> (isWhiteSpace c \<or> c = 0x40))))
    (Then (Cls (\<lambda>c. c = 0x40))
    (Then (plus_rx (Cls (\<lambda>c. \<not> (isWhiteSpace c \<or> c = 0x40))))
    (Then (Cls (\<lambda>c. c = 0x2E))
          (plus_rx (Cls (\<lambda>c. \<not> (isWhiteSpace c \<or> c = 0x40)))))))"

text \<open>\<open>\d\<close> and \<open>[1-9]\<close>\<close>

definition is_digit :: "code_unit \<Rightarrow> bool" where
  "is_digit c \<longleftrightarrow> 0x30 \<le> c \<and> c \<le> 0x39"

definition is_digit_1_9 :: "code_unit \<Rightarrow> bool" where
  "is_digit_1_9 c \<longleftrightarrow> 0x31 \<le> c \<and> c \<le> 0x39"

text \<open>\<open>/^[\+]?[1-9][\d]{0,15}$/\<close>\<close>

definition phoneRegex :: rx where
  "phoneRegex =
     Then (opt_rx (Cls (\<lambda>c. c = 0x2B)))
    (Then (Cls is_digit_1_9)
          (upto_rx 15 (Cls is_digit)))"

text \<open>\<open>value.replace(/[\s\-\(\)]/g, '')\<close>: every code unit of the class is deleted.\<close>

definition strip_phone :: "jsstring \<Rightarrow> jsstring" where
  "strip_phone v = filter (\<lambda>c. \<not> (isWhiteSpace c \<or> c = 0x2D \<or> c = 0x28 \<or> c = 0x29)) v"

text \<open>
  \<open>validateField\<close>, one equation per \<open>case\<close> of the \<open>switch\<close>; the two consent keys have no
  case and yield the empty object.
\<close>

fun validateField :: "field_input \<Rightarrow> errors" where
  "validateField (F_name v) =
     (if trim v = [] then [K_name \<mapsto> Msg (js ''Name is required'')]
      else if length (trim v) < 2 then [K_name \<mapsto> Msg (js ''Name must be at least 2 characters'')]
      else if length (trim v) > 100 then [K_name \<mapsto> Msg (js ''Name must be less than 100 characters'')]
      else Map.empty)"
| "validateField (F_email v) =
     (if trim v = [] then [K_email \<mapsto> Msg (js ''Email is required'')]
      else if \<not> rx_test emailRegex v then [K_email \<mapsto> Msg (js ''Please enter a valid email address'')]
      else Map.empty)"
| "validateField (F_company v) =
     (if trim v = [] then [K_company \<mapsto> Msg (js ''Company is required'')]
      else if length (trim v) < 2 then [K_company \<mapsto> Msg (js ''Company name must be at least 2 characters'')]
      else if length (trim v) > 100 then [K_company \<mapsto> Msg (js ''Company name must be less than 100 characters'')]
      else Map.empty)"
| "validateField (F_phone v) =
     (if v \<noteq> [] \<and> \<not> rx_test phoneRegex (strip_phone v)
      then [K_phone \<mapsto> Msg (js ''Please enter a valid phone number'')]
      else Map.empty)"
| "validateField (F_message v) =
     (if trim v = [] then [K_message \<mapsto> Msg (js ''Message is required'')]
      else if length (trim v) < 10 then [K_message \<mapsto> Msg (js ''Message must be at least 10 characters'')]
      else if length (trim v) > 2000 then [K_message \<mapsto> Msg (js ''Message must be less than 2000 characters'')]
      else Map.empty)"
| "validateField (F_preferred_contact_method v) =
     (if v = [] then [K_preferred_contact_method \<mapsto> Msg (js ''Please select a preferred contact method'')]
      else Map.empty)"
| "validateField (F_consent_marketing b) = Map.empty"
| "validateField (F_consent_data_processing b) = Map.empty"

text \<open>
  The phone rule in the words of the specification: a digit string of 1 to 16 digits,
  optionally prefixed with \<open>+\<close>.
\<close>

definition spec_phone_shape :: "jsstring \<Rightarrow> bool" where
  "spec_phone_shape s =
     (let ds = (case s of [] \<Rightarrow> [] | c # cs \<Rightarrow> if c = 0x2B then cs else s)
      in 1 \<le> length ds \<and> length ds \<le> 16 \<and> list_all is_digit ds)"

text \<open>The same with the first digit taken from 1 to 9.\<close>

definition phone_shape :: "jsstring \<Rightarrow> bool" where
  "phone_shape s =
     (let ds = (case s of [] \<Rightarrow> [] | c # cs \<Rightarrow> if c = 0x2B then cs else s)
      in case ds of
           [] \<Rightarrow> False
         | d # rest \<Rightarrow> is_digit_1_9 d \<and> length rest \<le> 15 \<and> list_all is_digit rest)"

text \<open>\<open>Object.keys(formData)\<close>, in the order the object literal lists them, and \<open>formData[key]\<close>.\<close>

definition formData_keys :: "key list" where
  "formData_keys =
     [K_name, K_email, K_company, K_phone, K_message, K_preferred_contact_method,
      K_consent_marketing, K_consent_data_processing]"

fun formData_get :: "FormData \<Rightarrow> key \<Rightarrow> field_input" where
  "formData_get fd K_name = F_name (name fd)"
| "formData_get fd K_email = F_email (email fd)"
| "formData_get fd K_company = F_company (company fd)"
| "formData_get fd K_phone = F_phone (phone fd)"
| "formData_get fd K_message = F_message (message fd)"
| "formData_get fd K_preferred_contact_method = F_preferred_contact_method (preferred_contact_method fd)"
| "formData_get fd K_consent_marketing = F_consent_marketing (consent_marketing fd)"
| "formData_get fd K_consent_data_processing = F_consent_data_processing (consent_data_processing fd)"

text \<open>
  \<open>validateForm\<close>: the \<open>forEach\<close> over the keys, \<open>Object.assign\<close> as map override, then the
  consent check.
\<close>

definition validateForm :: "FormData \<Rightarrow> errors" where
  "validateForm fd =
     (let errors = fold (\<lambda>k errors. if k \<noteq> K_phone then errors ++ validateField (formData_get fd k)
                                     else errors)
                        formData_keys Map.empty
      in if \<not> consent_data_processing fd
         then errors(K_consent_data_processing \<mapsto> Msg (js ''Data processing consent is required''))
         else errors)"

text \<open>\<open>Object.keys(errors)\<close> and the test \<open>Object.keys(errors).length > 0\<close>.\<close>

definition object_keys :: "errors \<Rightarrow> key list" where
  "object_keys errs = filter (\<lambda>k. errs k \<noteq> None) formData_keys"

definition has_keys :: "errors \<Rightarrow> bool" where
  "has_keys errs \<longleftrightarrow> length (object_keys errs) > 0"

section \<open>The submission state machine\<close>

text \<open>
  The component's \<open>formState\<close>; \<open>null\<close> is \<open>None\<close>.  The submission states of the
  specification are read off the flags: Submitted is \<open>isSubmitted\<close>, Submitting is
  \<open>isSubmitting\<close>, Failed is both flags false with a message in \<open>error\<close>, Idle is both
  flags false with \<open>error\<close> null.
\<close>

record FormState =
  isSubmitting :: bool
  isSubmitted :: bool
  error :: "jsstring option"
  validationErrors :: errors
  submissionStartTime :: "int option"
  eventId :: "jsstring option"
  correlationId :: "jsstring option"

text \<open>
  The three \<open>useState\<close> cells of \<open>ContactForm\<close>.  \<open>sessionId\<close> is destructured without its
  setter.
\<close>

record component =
  formData :: FormData
  formState :: FormState
  sessionId :: jsstring

definition initial_formData :: FormData where
  "initial_formData =
     \<lparr>name = [], email = [], company = [], phone = [], message = [],
      preferred_contact_method = [], consent_marketing = False,
      consent_data_processing = False\<rparr>"

definition initial_formState :: FormState where
  "initial_formState =
     \<lparr>isSubmitting = False, isSubmitted = False, error = None, validationErrors = Map.empty,
      submissionStartTime = None, eventId = None, correlationId = None\<rparr>"

text \<open>
  Mounting the component.  The initialiser of \<open>sessionId\<close> reads the clock and
  \<open>Math.random\<close>; its result is the parameter \<open>sid\<close>.
\<close>

definition mount_component :: "jsstring \<Rightarrow> component" where
  "mount_component sid =
     \<lparr>formData = initial_formData, formState = initial_formState, sessionId = sid\<rparr>"

text \<open>\<open>{ ...prev, [name]: value }\<close>\<close>

fun formData_set :: "field_input \<Rightarrow> FormData \<Rightarrow> FormData" where
  "formData_set (F_name v) fd = fd\<lparr>name := v\<rparr>"
| "formData_set (F_email v) fd = fd\<lparr>email := v\<rparr>"
| "formData_set (F_company v) fd = fd\<lparr>company := v\<rparr>"
| "formData_set (F_phone v) fd = fd\<lparr>phone := v\<rparr>"
| "formData_set (F_message v) fd = fd\<lparr>message := v\<rparr>"
| "formData_set (F_preferred_contact_method v) fd = fd\<lparr>preferred_contact_method := v\<rparr>"
| "formData_set (F_consent_marketing b) fd = fd\<lparr>consent_marketing := b\<rparr>"
| "formData_set (F_consent_data_processing b) fd = fd\<lparr>consent_data_processing := b\<rparr>"

text \<open>Truthiness of \<open>errors[name]\<close>: a missing key, \<open>undefined\<close> and the empty string are falsy.\<close>

fun truthy :: "errval option \<Rightarrow> bool" where
  "truthy None = False"
| "truthy (Some Undefined) = False"
| "truthy (Some (Msg m)) = (m \<noteq> [])"

definition handleInputChange :: "field_input \<Rightarrow> component \<Rightarrow> component" where
  "handleInputChange fi c =
     (let c1 = c\<lparr>formData := formData_set fi (formData c)\<rparr>
      in if truthy (validationErrors (formState c) (key_of fi))
         then c1\<lparr>formState := (formState c)\<lparr>validationErrors :=
                     (validationErrors (formState c))(key_of fi \<mapsto> Undefined)\<rparr>\<rparr>
         else c1)"

definition handleBlur :: "field_input \<Rightarrow> component \<Rightarrow> component" where
  "handleBlur fi c =
     (let fieldErrors = validateField fi
      in c\<lparr>formState := (formState c)\<lparr>validationErrors :=
              validationErrors (formState c) ++ fieldErrors\<rparr>\<rparr>)"

text \<open>The request handed to \<open>fetch\<close>; the body is the payload before \<open>JSON.stringify\<close>.\<close>

record metadata =
  session_id :: jsstring
  form_version :: jsstring
  submission_duration_ms :: int

record payload =
  form_data :: FormData
  metadata :: metadata

record request =
  url :: jsstring
  http_method :: jsstring
  content_type :: jsstring
  body :: payload

text \<open>
  \<open>handleSubmit\<close> up to its first \<open>await\<close>.  \<open>t0\<close> and \<open>t1\<close> are the results of the two calls
  of \<open>Date.now()\<close>.  The state updates queued in this synchronous part are applied in order;
  the second component of the result is the call of \<open>fetch\<close>, if one is made.
\<close>

definition handleSubmit_start :: "int \<Rightarrow> int \<Rightarrow> component \<Rightarrow> component \<times> request option" where
  "handleSubmit_start t0 t1 c =
     (let submissionStartTime = t0;
          fs1 = (formState c)\<lparr>isSubmitting := True, error := None,
                                submissionStartTime := Some submissionStartTime\<rparr>;
          validationErrors = validateForm (formData c)
      in if has_keys validationErrors
         then (c\<lparr>formState := fs1\<lparr>isSubmitting := False, validationErrors := validationErrors\<rparr>\<rparr>,
               None)
         else (let submissionDuration = t1 - submissionStartTime;
                   payload = \<lparr>form_data = formData c,
                              metadata = \<lparr>session_id = sessionId c,
                                          form_version = js ''1.0.0'',
                                          submission_duration_ms = submissionDuration\<rparr>\<rparr>
               in (c\<lparr>formState := fs1\<rparr>,
                   Some \<lparr>url = js ''/api/contact'', http_method = js ''POST'',
                         content_type = js ''application/json'', body = payload\<rparr>)))"

text \<open>
  What the awaited calls deliver.  \<open>Threw m\<close>: \<open>fetch\<close> or \<open>response.json()\<close> rejected, or
  a property of a \<open>null\<close> body was read, with \<open>error.message = m\<close>.  \<open>Responded ok result\<close>:
  \<open>response.ok\<close> and the parsed body, of which the code reads the properties \<open>event_id\<close>,
  \<open>correlation_id\<close> and \<open>error\<close>; a missing property is \<open>None\<close>, a present one is a string.
\<close>

datatype result =
  Result (result_event_id: "jsstring option") (result_correlation_id: "jsstring option")
         (result_error: "jsstring option")

datatype outcome = Threw jsstring | Responded bool result

text \<open>\<open>result.error || 'Failed to submit form'\<close>\<close>

definition thrown_message :: "result \<Rightarrow> jsstring" where
  "thrown_message r =
     (case result_error r of
        None \<Rightarrow> js ''Failed to submit form''
      | Some e \<Rightarrow> if e \<noteq> [] then e else js ''Failed to submit form'')"

text \<open>\<open>handleSubmit\<close> after the \<open>await\<close>s: the success branch, the \<open>throw\<close> and the \<open>catch\<close>.\<close>

fun handleSubmit_settle :: "outcome \<Rightarrow> component \<Rightarrow> component" where
  "handleSubmit_settle (Responded ok r) c =
     (if ok
      then c\<lparr>formState := (formState c)\<lparr>isSubmitting := False, isSubmitted := True,
                                            eventId := result_event_id r,
                                            correlationId := result_correlation_id r\<rparr>\<rparr>
      else c\<lparr>formState := (formState c)\<lparr>isSubmitting := False,
                                            error := Some (thrown_message r)\<rparr>\<rparr>)"
| "handleSubmit_settle (Threw m) c =
     c\<lparr>formState := (formState c)\<lparr>isSubmitting := False, error := Some m\<rparr>\<rparr>"

definition resetForm :: "component \<Rightarrow> component" where
  "resetForm c = c\<lparr>formData := initial_formData, formState := initial_formState\<rparr>"

subsection \<open>The rendered form and the transport\<close>

text \<open>
  The component together with the transport: the requests sent and not yet answered, and
  the number of calls of \<open>fetch\<close> made so far.
\<close>

record system =
  contactForm :: component
  in_flight :: "request list"
  calls :: nat

definition mount :: "jsstring \<Rightarrow> system" where
  "mount sid = \<lparr>contactForm = mount_component sid, in_flight = [], calls = 0\<rparr>"

text \<open>
  What can happen to a mounted component: an input changes, an input loses focus, the
  submit button is pressed, the pending request is answered, the reset button is clicked.
\<close>

datatype event =
    Change field_input
  | Blur field_input
  | Submit int int
  | Settle outcome
  | Reset

text \<open>
  The form element has no \<open>noValidate\<close> and its button has \<open>type="submit"\<close>, so the browser
  validates the controls before it fires the \<open>submit\<close> event.  No control has \<open>required\<close>,
  \<open>pattern\<close> or a length attribute; the one constrained control is the input with
  \<open>type="email"\<close>.  Its value is what the value sanitization algorithm of HTML makes of
  \<open>formData.email\<close> (newlines removed, then ASCII white space removed from both ends), and
  it suffers from a type mismatch when that value is neither empty nor a valid e-mail
  address.  The valid e-mail addresses of HTML are the strings matched by
  \<open>/^[a-zA-Z0-9.!#$%&'*+\/=?^_`{|}~-]+@[a-zA-Z0-9](?:[a-zA-Z0-9-]{0,61}[a-zA-Z0-9])?(?:\.[a-zA-Z0-9](?:[a-zA-Z0-9-]{0,61}[a-zA-Z0-9])?)*$/\<close>.
\<close>

definition is_ascii_alnum :: "code_unit \<Rightarrow> bool" where
  "is_ascii_alnum c \<longleftrightarrow>
     (0x30 \<le> c \<and> c \<le> 0x39) \<or> (0x41 \<le> c \<and> c \<le> 0x5A) \<or> (0x61 \<le> c \<and> c \<le> 0x7A)"

text \<open>The class \<open>[a-zA-Z0-9.!#$%&'*+\/=?^_`{|}~-]\<close>, its punctuation in the order written.\<close>

definition is_atext_or_dot :: "code_unit \<Rightarrow> bool" where
  "is_atext_or_dot c \<longleftrightarrow>
     is_ascii_alnum c \<or>
     List.member [0x2E, 0x21, 0x23, 0x24, 0x25, 0x26, 0x27, 0x2A, 0x2B, 0x2F, 0x3D, 0x3F, 0x5E,
                  0x5F, 0x60, 0x7B, 0x7C, 0x7D, 0x7E, 0x2D] c"

text \<open>\<open>[a-zA-Z0-9](?:[a-zA-Z0-9-]{0,61}[a-zA-Z0-9])?\<close>\<close>

definition html_label :: rx where
  "html_label =
     Then (Cls is_ascii_alnum)
          (opt_rx (Then (upto_rx 61 (Cls (\<lambda>c. is_ascii_alnum c \<or> c = 0x2D)))
                        (Cls is_ascii_alnum)))"

definition htmlEmailRegex :: rx where
  "htmlEmailRegex =
     Then (plus_rx (Cls is_atext_or_dot))
    (Then (Cls (\<lambda>c. c = 0x40))
    (Then html_label
          (Many (Then (Cls (\<lambda>c. c = 0x2E)) html_label))))"

definition is_ascii_whitespace :: "code_unit \<Rightarrow> bool" where
  "is_ascii_whitespace c \<longleftrightarrow> c = 0x09 \<or> c = 0x0A \<or> c = 0x0C \<or> c = 0x0D \<or> c = 0x20"

definition email_input_value :: "jsstring \<Rightarrow> jsstring" where
  "email_input_value v =
     (let stripped = filter (\<lambda>c. c \<noteq> 0x0A \<and> c \<noteq> 0x0D) v
      in rev (dropWhile is_ascii_whitespace (rev (dropWhile is_ascii_whitespace stripped))))"

definition email_type_mismatch :: "jsstring \<Rightarrow> bool" where
  "email_type_mismatch v \<longleftrightarrow>
     email_input_value v \<noteq> [] \<and> \<not> rx_test htmlEmailRegex (email_input_value v)"

text \<open>\<open>form.checkValidity()\<close>: no control of the form violates a constraint.\<close>

definition form_checkValidity :: "FormData \<Rightarrow> bool" where
  "form_checkValidity fd \<longleftrightarrow> \<not> email_type_mismatch (email fd)"

text \<open>
  The render function decides which handlers can run.  With \<open>isSubmitted\<close> it returns the
  confirmation card, whose only control is the button bound to \<open>resetForm\<close>; otherwise it
  returns the form, whose inputs and submit button all carry
  \<open>disabled={formState.isSubmitting}\<close>.  A disabled control raises no event, and the state
  updates of one handler are rendered before the next event is delivered, so a handler
  of the form runs only in a state that satisfies \<open>form_enabled\<close>.  \<open>handleSubmit\<close> itself
  tests neither flag.  Pressing the submit button of the enabled form fires the \<open>submit\<close>
  event, and so runs \<open>handleSubmit\<close>, only when \<open>form_checkValidity\<close> holds; otherwise the
  browser reports the e-mail input and nothing reaches the component.
\<close>

definition form_enabled :: "component \<Rightarrow> bool" where
  "form_enabled c \<longleftrightarrow> \<not> isSubmitted (formState c) \<and> \<not> isSubmitting (formState c)"

text \<open>
  The five text inputs are bound to \<open>handleBlur\<close>; the select and the two checkboxes have
  no \<open>onBlur\<close>.
\<close>

fun has_onBlur :: "field_input \<Rightarrow> bool" where
  "has_onBlur (F_name v) = True"
| "has_onBlur (F_email v) = True"
| "has_onBlur (F_company v) = True"
| "has_onBlur (F_phone v) = True"
| "has_onBlur (F_message v) = True"
| "has_onBlur (F_preferred_contact_method v) = False"
| "has_onBlur (F_consent_marketing b) = False"
| "has_onBlur (F_consent_data_processing b) = False"

fun step :: "event \<Rightarrow> system \<Rightarrow> system" where
  "step (Change fi) s =
     (if form_enabled (contactForm s)
      then s\<lparr>contactForm := handleInputChange fi (contactForm s)\<rparr>
      else s)"
| "step (Blur fi) s =
     (if form_enabled (contactForm s) \<and> has_onBlur fi
      then s\<lparr>contactForm := handleBlur fi (contactForm s)\<rparr>
      else s)"
| "step (Submit t0 t1) s =
     (if form_enabled (contactForm s) \<and> form_checkValidity (formData (contactForm s))
      then (case handleSubmit_start t0 t1 (contactForm s) of
              (c, None) \<Rightarrow> s\<lparr>contactForm := c\<rparr>
            | (c, Some req) \<Rightarrow> s\<lparr>contactForm := c, in_flight := in_flight s @ [req],
                                 calls := calls s + 1\<rparr>)
      else s)"
| "step (Settle out) s =
     (case in_flight s of
        [] \<Rightarrow> s
      | req # rest \<Rightarrow>
          s\<lparr>contactForm := handleSubmit_settle out (contactForm s), in_flight := rest\<rparr>)"
| "step Reset s =
     (if isSubmitted (formState (contactForm s))
      then s\<lparr>contactForm := resetForm (contactForm s)\<rparr>
      else s)"

definition run :: "event list \<Rightarrow> system \<Rightarrow> system" where
  "run evs s = fold step evs s"

subsection \<open>Consistency of component and transport\<close>

text \<open>
  The flags and the transport agree: while \<open>isSubmitting\<close> holds exactly one request is
  pending and the confirmation card is not shown; otherwise no request is pending.
\<close>

definition consistent :: "system \<Rightarrow> bool" where
  "consistent s \<longleftrightarrow>
     (if isSubmitting (formState (contactForm s))
      then \<not> isSubmitted (formState (contactForm s)) \<and> length (in_flight s) = 1
      else in_flight s = [])"

subsection \<open>The record of the end-to-end scenarios\<close>

definition scenario_record :: FormData where
  "scenario_record =
     \<lparr>name = js ''Ann Lee'', email = js ''ann@ex.com'', company = js ''Acme'', phone = [],
      message = js ''Interested in your platform for six months.'',
      preferred_contact_method = js ''email'', consent_marketing = False,
      consent_data_processing = True\<rparr>"

text \<open>
  The session identity of the scenarios and the two mock answers: status 200 with
  \<open>{event_id: "ev-1", correlation_id: "corr-1"}\<close>, and status 422 with
  \<open>{error: "duplicate submission"}\<close>.
\<close>

definition scenario_session :: jsstring where
  "scenario_session = js ''sess_1700000000000_k3j9x2m1q''"

definition scenario_ok :: outcome where
  "scenario_ok = Responded True (Result (Some (js ''ev-1'')) (Some (js ''corr-1'')) None)"

definition scenario_rejected :: outcome where
  "scenario_rejected = Responded False (Result None None (Some (js ''duplicate submission'')))"

text \<open>Typing a record into the form: one change event per field.\<close>

definition fill :: "FormData \<Rightarrow> event list" where
  "fill fd =
     [Change (F_name (name fd)), Change (F_email (email fd)), Change (F_company (company fd)),
      Change (F_phone (phone fd)), Change (F_message (message fd)),
      Change (F_preferred_contact_method (preferred_contact_method fd)),
      Change (F_consent_marketing (consent_marketing fd)),
      Change (F_consent_data_processing (consent_data_processing fd))]"

text \<open>The mounted form after a record has been typed in.\<close>

definition scenario_form :: "FormData \<Rightarrow> system" where
  "scenario_form fd = run (fill fd) (mount scenario_session)"

section \<open>The telemetry simulator\<close>

subsection \<open>Double precision\<close>

text \<open>
  Every JavaScript number in the tick is a finite double that is not negative.  Such a
  double is a whole multiple of \<open>1 / 2 ^ 1074\<close> whose binary numeral, leading zeros and
  trailing zeros aside, has at most 53 digits.  A number \<open>x\<close> is represented by the natural
  number \<open>x * 2 ^ 1074\<close>; a whole number may as well be represented by itself, the
  condition being the same.  \<open>bits n\<close> is the length of the binary numeral of \<open>n\<close>.
\<close>

fun bits :: "nat \<Rightarrow> nat" where
  "bits n = (if n = 0 then 0 else Suc (bits (n div 2)))"

declare bits.simps [simp del]

definition is_double :: "nat \<Rightarrow> bool" where
  "is_double n \<longleftrightarrow> bits n \<le> 53 \<or> n mod 2 ^ (bits n - 53) = 0"

text \<open>
  The result of an arithmetic operation is the exact result rounded to the nearest double,
  a tie going to the double with the even significand.  No result of the tick is large
  enough to overflow.
\<close>

definition round53 :: "nat \<Rightarrow> nat" where
  "round53 n =
     (if bits n \<le> 53 then n
      else let s = bits n - 53; q = n div 2 ^ s; r = n mod 2 ^ s
           in if 2 ^ s < 2 * r \<or> (2 * r = 2 ^ s \<and> odd q) then (q + 1) * 2 ^ s else q * 2 ^ s)"

text \<open>\<open>Math.floor\<close> of a double given in units of \<open>1 / 2 ^ 1074\<close>; the result is a whole number.\<close>

definition Math_floor :: "nat \<Rightarrow> nat" where
  "Math_floor x = x div 2 ^ 1074"

text \<open>\<open>Math.random()\<close> returns a double from 0 (included) to 1 (excluded).\<close>

definition is_random :: "nat \<Rightarrow> bool" where
  "is_random r \<longleftrightarrow> is_double r \<and> r < 2 ^ 1074"

text \<open>The literal \<open>0.1\<close> denotes the double nearest to one tenth, \<open>3602879701896397 / 2 ^ 55\<close>.\<close>

definition double_0_1 :: nat where
  "double_0_1 = 3602879701896397 * 2 ^ 1019"

subsection \<open>The tick\<close>

text \<open>
  The \<open>stats\<close> cell of \<open>App\<close> and the function passed to \<open>setStats\<close> every three seconds.
  \<open>r1\<close>, \<open>r2\<close> and \<open>r3\<close> are the results of the three calls of \<open>Math.random()\<close>, in units of
  \<open>1 / 2 ^ 1074\<close>.  The two counters hold whole numbers.  The constants 3, 100 and 150 are
  doubles, so the exact products are \<open>r1 * 3\<close> and \<open>r2 * 100\<close> in the same units.
\<close>

record stats =
  eventsProcessed :: nat
  avgResponseTime :: nat
  systemHealth :: jsstring

definition initial_stats :: stats where
  "initial_stats = \<lparr>eventsProcessed = 0, avgResponseTime = 0, systemHealth = js ''healthy''\<rparr>"

definition tick :: "nat \<Rightarrow> nat \<Rightarrow> nat \<Rightarrow> stats \<Rightarrow> stats" where
  "tick r1 r2 r3 prev =
     \<lparr>eventsProcessed = round53 (eventsProcessed prev + Math_floor (round53 (r1 * 3))),
      avgResponseTime = round53 (150 + Math_floor (round53 (r2 * 100))),
      systemHealth = (if r3 > double_0_1 then js ''healthy'' else js ''degraded'')\<rparr>"

section \<open>The matcher decides the language\<close>

lemma cat_nil_iff: "[] \<in> cat A B \<longleftrightarrow> [] \<in> A \<and> [] \<in> B"
  by (auto simp: cat_def)

lemma nullable_lang: "nullable r \<longleftrightarrow> [] \<in> lang r"
  by (induction r) (auto simp: cat_nil_iff intro: star.star_nil)

lemma cat_cons_iff:
  "c # w \<in> cat A B \<longleftrightarrow> (\<exists>u v. w = u @ v \<and> c # u \<in> A \<and> v \<in> B) \<or> ([] \<in> A \<and> c # w \<in> B)"
proof
  assume "c # w \<in> cat A B"
  then obtain x y where xy: "c # w = x @ y" "x \<in> A" "y \<in> B"
    by (auto simp: cat_def)
  show "(\<exists>u v. w = u @ v \<and> c # u \<in> A \<and> v \<in> B) \<or> ([] \<in> A \<and> c # w \<in> B)"
  proof (cases x)
    case Nil
    with xy show ?thesis by simp
  next
    case (Cons a x')
    with xy have "w = x' @ y" "c # x' \<in> A" by simp_all
    with xy show ?thesis by blast
  qed
next
  assume "(\<exists>u v. w = u @ v \<and> c # u \<in> A \<and> v \<in> B) \<or> ([] \<in> A \<and> c # w \<in> B)"
  then show "c # w \<in> cat A B"
  proof
    assume "\<exists>u v. w = u @ v \<and> c # u \<in> A \<and> v \<in> B"
    then obtain u v where "w = u @ v" "c # u \<in> A" "v \<in> B" by blast
    then have "c # w = (c # u) @ v" by simp
    with \<open>c # u \<in> A\<close> \<open>v \<in> B\<close> show ?thesis unfolding cat_def by blast
  next
    assume "[] \<in> A \<and> c # w \<in> B"
    then have "c # w = [] @ (c # w)" "[] \<in> A" "c # w \<in> B" by simp_all
    then show ?thesis unfolding cat_def by blast
  qed
qed

lemma star_cons_split:
  assumes "x \<in> star A" and "x = c # w"
  shows "\<exists>u v. w = u @ v \<and> c # u \<in> A \<and> v \<in> star A"
  using assms
proof (induction arbitrary: w rule: star.induct)
  case star_nil
  then show ?case by simp
next
  case (star_app u v)
  show ?case
  proof (cases u)
    case Nil
    with star_app show ?thesis by simp
  next
    case (Cons a u')
    with star_app.prems have "w = u' @ v" "a = c" by simp_all
    with Cons star_app.hyps show ?thesis by blast
  qed
qed

lemma star_cons_iff:
  "c # w \<in> star A \<longleftrightarrow> (\<exists>u v. w = u @ v \<and> c # u \<in> A \<and> v \<in> star A)"
proof
  assume "c # w \<in> star A"
  then show "\<exists>u v. w = u @ v \<and> c # u \<in> A \<and> v \<in> star A"
    by (rule star_cons_split) simp
next
  assume "\<exists>u v. w = u @ v \<and> c # u \<in> A \<and> v \<in> star A"
  then obtain u v where "w = u @ v" "c # u \<in> A" "v \<in> star A" by blast
  have "(c # u) @ v \<in> star A"
    using \<open>c # u \<in> A\<close> \<open>v \<in> star A\<close> by (rule star.star_app)
  with \<open>w = u @ v\<close> show "c # w \<in> star A" by simp
qed

lemma lang_deriv: "w \<in> lang (deriv c r) \<longleftrightarrow> c # w \<in> lang r"
proof (induction r arbitrary: w)
  case (Then r s)
  then show ?case
    by (auto simp: cat_cons_iff nullable_lang) (auto simp: cat_def)
next
  case (Many r)
  then show ?case
    by (auto simp: star_cons_iff) (auto simp: cat_def)
qed auto

lemma rx_test_lang: "rx_test r s \<longleftrightarrow> s \<in> lang r"
  by (induction s arbitrary: r) (simp_all add: nullable_lang lang_deriv)

section \<open>The phone expression\<close>

lemma cat_cls_iff: "w \<in> cat {[c] | c. p c} B \<longleftrightarrow> (\<exists>c v. w = c # v \<and> p c \<and> v \<in> B)"
proof
  assume "w \<in> cat {[c] | c. p c} B"
  then show "\<exists>c v. w = c # v \<and> p c \<and> v \<in> B"
    by (auto simp: cat_def)
next
  assume "\<exists>c v. w = c # v \<and> p c \<and> v \<in> B"
  then obtain c v where "w = [c] @ v" "p c" "v \<in> B" by auto
  then show "w \<in> cat {[c] | c. p c} B"
    unfolding cat_def by blast
qed

lemma lang_opt_rx: "lang (opt_rx r) = lang r \<union> {[]}"
  by (simp add: opt_rx_def)

lemma lang_upto_cls:
  "w \<in> lang (upto_rx n (Cls p)) \<longleftrightarrow> length w \<le> n \<and> list_all p w"
proof (induction n arbitrary: w)
  case 0
  then show ?case by auto
next
  case (Suc n)
  show ?case
  proof (cases w)
    case Nil
    then show ?thesis by (simp add: lang_opt_rx)
  next
    case (Cons c v)
    then show ?thesis
      using Suc.IH [of v] by (auto simp add: lang_opt_rx cat_cls_iff)
  qed
qed

lemma plus_not_digit_1_9: "\<not> is_digit_1_9 0x2B"
  by (simp add: is_digit_1_9_def)

lemma lang_phone_body:
  "w \<in> lang (Then (Cls is_digit_1_9) (upto_rx 15 (Cls is_digit))) \<longleftrightarrow>
     (case w of [] \<Rightarrow> False | d # rest \<Rightarrow> is_digit_1_9 d \<and> length rest \<le> 15 \<and> list_all is_digit rest)"
  by (cases w) (simp_all add: cat_cls_iff lang_upto_cls)

lemma cat_opt_plus_iff:
  "w \<in> cat (lang (opt_rx (Cls (\<lambda>c. c = 0x2B)))) B \<longleftrightarrow>
     w \<in> B \<or> (\<exists>v. w = 0x2B # v \<and> v \<in> B)"
proof -
  have L: "lang (opt_rx (Cls (\<lambda>c. c = 0x2B))) = {[0x2B], []}"
    by (auto simp: opt_rx_def)
  show ?thesis
  proof
    assume "w \<in> cat (lang (opt_rx (Cls (\<lambda>c. c = 0x2B)))) B"
    then obtain u v where "w = u @ v" "u = [0x2B] \<or> u = []" "v \<in> B"
      unfolding L cat_def by blast
    then show "w \<in> B \<or> (\<exists>v. w = 0x2B # v \<and> v \<in> B)"
      by auto
  next
    assume "w \<in> B \<or> (\<exists>v. w = 0x2B # v \<and> v \<in> B)"
    then show "w \<in> cat (lang (opt_rx (Cls (\<lambda>c. c = 0x2B)))) B"
    proof
      assume "w \<in> B"
      then have "w = [] @ w \<and> [] \<in> {[0x2B], []} \<and> w \<in> B" by simp
      then show ?thesis unfolding L cat_def by blast
    next
      assume "\<exists>v. w = 0x2B # v \<and> v \<in> B"
      then obtain v where "w = [0x2B] @ v \<and> [0x2B] \<in> {[0x2B], []} \<and> v \<in> B" by auto
      then show ?thesis unfolding L cat_def by blast
    qed
  qed
qed

lemma rx_test_phoneRegex: "rx_test phoneRegex s \<longleftrightarrow> phone_shape s"
proof -
  define B where "B = lang (Then (Cls is_digit_1_9) (upto_rx 15 (Cls is_digit)))"
  have body: "w \<in> B \<longleftrightarrow>
      (case w of [] \<Rightarrow> False | d # rest \<Rightarrow> is_digit_1_9 d \<and> length rest \<le> 15 \<and> list_all is_digit rest)"
    for w unfolding B_def by (rule lang_phone_body)
  have "rx_test phoneRegex s \<longleftrightarrow> s \<in> cat (lang (opt_rx (Cls (\<lambda>c. c = 0x2B)))) B"
    unfolding rx_test_lang phoneRegex_def B_def by simp
  then have split: "rx_test phoneRegex s \<longleftrightarrow> s \<in> B \<or> (\<exists>v. s = 0x2B # v \<and> v \<in> B)"
    unfolding cat_opt_plus_iff .
  show ?thesis
  proof (cases s)
    case Nil
    then show ?thesis
      unfolding split by (simp add: phone_shape_def body)
  next
    case (Cons c cs)
    show ?thesis
    proof (cases "c = 0x2B")
      case True
      with Cons have "s \<notin> B"
        using plus_not_digit_1_9 by (simp add: body)
      moreover have "phone_shape s \<longleftrightarrow> cs \<in> B"
        using Cons True by (simp add: phone_shape_def body)
      ultimately show ?thesis
        unfolding split using Cons True by simp
    next
      case False
      with Cons show ?thesis
        unfolding split by (simp add: phone_shape_def body)
    qed
  qed
qed

section \<open>Properties of the validation engine\<close>

subsection \<open>The loop of \<open>validateForm\<close>\<close>

text \<open>The \<open>forEach\<close> visits every key but \<open>phone\<close>; the two consent keys add nothing.\<close>

lemma validateForm_unfold:
  "validateForm fd =
     (let errors = validateField (F_name (name fd)) ++ validateField (F_email (email fd)) ++
                   validateField (F_company (company fd)) ++ validateField (F_message (message fd)) ++
                   validateField (F_preferred_contact_method (preferred_contact_method fd))
      in if \<not> consent_data_processing fd
         then errors(K_consent_data_processing \<mapsto> Msg (js ''Data processing consent is required''))
         else errors)"
  by (simp add: validateForm_def formData_keys_def)

lemma validateForm_empty_iff:
  "validateForm fd = Map.empty \<longleftrightarrow>
     validateField (F_name (name fd)) = Map.empty \<and>
     validateField (F_email (email fd)) = Map.empty \<and>
     validateField (F_company (company fd)) = Map.empty \<and>
     validateField (F_message (message fd)) = Map.empty \<and>
     validateField (F_preferred_contact_method (preferred_contact_method fd)) = Map.empty \<and>
     consent_data_processing fd"
  unfolding validateForm_unfold Let_def by (auto simp del: validateField.simps)

text \<open>\<open>validateField\<close> writes under no key but its own.\<close>

lemma validateField_other_key: "k \<noteq> key_of fi \<Longrightarrow> validateField fi k = None"
  by (cases fi) simp_all

lemma validateForm_at_email:
  "validateForm fd K_email = validateField (F_email (email fd)) K_email"
  unfolding validateForm_unfold Let_def
  by (simp add: map_add_def validateField_other_key del: validateField.simps split: option.split)

lemma validateField_email_invalid:
  "\<not> rx_test emailRegex v \<Longrightarrow> truthy (validateField (F_email v) K_email)"
  by (simp add: js_def)

lemma validateForm_email_invalid:
  assumes "\<not> rx_test emailRegex (email fd)"
  shows "truthy (validateForm fd K_email)"
  unfolding validateForm_at_email using assms by (rule validateField_email_invalid)

text \<open>\<open>Object.keys(errors).length > 0\<close> holds exactly of the non-empty objects.\<close>

lemma key_cases: "(\<exists>k::key. P k) \<longleftrightarrow> (\<exists>k \<in> set formData_keys. P k)"
proof -
  have "k \<in> set formData_keys" for k
    by (cases k) (simp_all add: formData_keys_def)
  then show ?thesis by blast
qed

lemma has_keys_iff: "has_keys errs \<longleftrightarrow> errs \<noteq> Map.empty"
proof -
  have "has_keys errs \<longleftrightarrow> (\<exists>k \<in> set formData_keys. errs k \<noteq> None)"
    by (simp add: has_keys_def object_keys_def filter_empty_conv)
  also have "\<dots> \<longleftrightarrow> (\<exists>k. errs k \<noteq> None)"
    by (rule key_cases [symmetric])
  also have "\<dots> \<longleftrightarrow> errs \<noteq> Map.empty"
    by (auto simp: fun_eq_iff)
  finally show ?thesis .
qed

subsection \<open>The phone rule\<close>

text \<open>
  Claim C7, amended.  \<open>validateField\<close> on the phone field returns no error when the value is
  empty, and otherwise returns no error exactly when the value, after every white-space
  code unit, hyphen and parenthesis has been deleted, consists of an optional \<open>+\<close>, one
  digit from 1 to 9 and at most 15 further digits.
\<close>

theorem validateField_phone_iff:
  "validateField (F_phone v) = Map.empty \<longleftrightarrow> v = [] \<or> phone_shape (strip_phone v)"
proof (cases "v = []")
  case True
  then show ?thesis by simp
next
  case False
  have "validateField (F_phone v) = Map.empty \<longleftrightarrow> rx_test phoneRegex (strip_phone v)"
    using False by simp
  also have "\<dots> \<longleftrightarrow> phone_shape (strip_phone v)"
    by (rule rx_test_phoneRegex)
  finally show ?thesis
    using False by simp
qed

text \<open>
  An accepted value with spaces, parentheses and a hyphen, the empty value, and a rejected
  value.
\<close>

theorem validateField_phone_iff_witness:
  "validateField (F_phone (js ''+1 (555) 123-4567'')) = Map.empty \<and>
   validateField (F_phone []) = Map.empty \<and>
   validateField (F_phone (js ''555-abc'')) \<noteq> Map.empty"
proof -
  have "phone_shape (strip_phone (js ''+1 (555) 123-4567''))"
    by code_simp
  moreover have "js ''555-abc'' \<noteq> [] \<and> \<not> phone_shape (strip_phone (js ''555-abc''))"
    by code_simp
  ultimately show ?thesis
    using validateField_phone_iff [of "js ''+1 (555) 123-4567''"] validateField_phone_iff [of "[]"]
      validateField_phone_iff [of "js ''555-abc''"]
    by simp
qed

text \<open>
  Claim C7 as first stated admits every digit string of 1 to 16 digits.  The value \<open>0\<close> is
  such a string, nothing is deleted from it, and \<open>validateField\<close> rejects it: the
  expression asks for a first digit from 1 to 9.
\<close>

theorem validateField_phone_counterexample:
  "strip_phone (js ''0'') = js ''0'' \<and> spec_phone_shape (js ''0'') \<and> js ''0'' \<noteq> [] \<and>
   validateField (F_phone (js ''0'')) K_phone = Some (Msg (js ''Please enter a valid phone number''))"
  by code_simp

subsection \<open>The length rules\<close>

text \<open>
  Claim C8.  For \<open>name\<close> and \<open>company\<close> with bounds 2 and 100, and for \<open>message\<close> with
  bounds 10 and 2000: \<open>validateField\<close> returns a non-empty message under the field's key
  when the trimmed value is shorter than the lower bound, and the empty object when the
  trimmed length lies within the bounds, ends included.
\<close>

theorem validateField_length_bounds:
  "(length (trim v) < 2 \<longrightarrow> truthy (validateField (F_name v) K_name)) \<and>
   (2 \<le> length (trim v) \<and> length (trim v) \<le> 100 \<longrightarrow> validateField (F_name v) = Map.empty) \<and>
   (length (trim v) < 2 \<longrightarrow> truthy (validateField (F_company v) K_company)) \<and>
   (2 \<le> length (trim v) \<and> length (trim v) \<le> 100 \<longrightarrow> validateField (F_company v) = Map.empty) \<and>
   (length (trim v) < 10 \<longrightarrow> truthy (validateField (F_message v) K_message)) \<and>
   (10 \<le> length (trim v) \<and> length (trim v) \<le> 2000 \<longrightarrow> validateField (F_message v) = Map.empty)"
proof -
  have required: "js ''Name is required'' \<noteq> []" "js ''Company is required'' \<noteq> []"
    "js ''Message is required'' \<noteq> []"
    by (simp_all add: js_def)
  have too_short: "js ''Name must be at least 2 characters'' \<noteq> []"
    "js ''Company name must be at least 2 characters'' \<noteq> []"
    "js ''Message must be at least 10 characters'' \<noteq> []"
    by (simp_all add: js_def)
  have within: "2 \<le> length (trim v) \<Longrightarrow> trim v \<noteq> []" "10 \<le> length (trim v) \<Longrightarrow> trim v \<noteq> []"
    by auto
  show ?thesis
    using required too_short within by simp
qed

text \<open>A value that trims to one code unit, and one that trims to ten.\<close>

theorem validateField_length_bounds_witness:
  "truthy (validateField (F_name (js '' A '')) K_name) \<and>
   truthy (validateField (F_company (js '' A '')) K_company) \<and>
   truthy (validateField (F_message (js '' A '')) K_message) \<and>
   validateField (F_name (js ''Acme Corp.'')) = Map.empty \<and>
   validateField (F_company (js ''Acme Corp.'')) = Map.empty \<and>
   validateField (F_message (js ''Acme Corp.'')) = Map.empty"
proof -
  have "length (trim (js '' A '')) = 1"
    by code_simp
  moreover have "length (trim (js ''Acme Corp.'')) = 10"
    by code_simp
  ultimately show ?thesis
    using validateField_length_bounds [of "js '' A ''"]
      validateField_length_bounds [of "js ''Acme Corp.''"]
    by simp
qed

subsection \<open>The consent rule\<close>

text \<open>
  Claim C9.  For every form record whose \<open>consent_data_processing\<close> is false,
  \<open>validateForm\<close> returns an object with the entry \<open>consent_data_processing\<close>, whatever
  the other fields hold.
\<close>

theorem validateForm_consent_required:
  assumes "\<not> consent_data_processing fd"
  shows "validateForm fd K_consent_data_processing =
           Some (Msg (js ''Data processing consent is required''))"
proof -
  have "validateForm fd =
      (fold (\<lambda>k errors. if k \<noteq> K_phone then errors ++ validateField (formData_get fd k) else errors)
         formData_keys Map.empty)
      (K_consent_data_processing \<mapsto> Msg (js ''Data processing consent is required''))"
    using assms by (simp add: validateForm_def)
  then show ?thesis
    by simp
qed

text \<open>
  The record of the scenarios with the consent withdrawn: every other field passes, and the
  consent entry is the only one.
\<close>

theorem validateForm_consent_required_witness:
  "\<not> consent_data_processing (scenario_record\<lparr>consent_data_processing := False\<rparr>) \<and>
   object_keys (validateForm (scenario_record\<lparr>consent_data_processing := False\<rparr>)) =
     [K_consent_data_processing] \<and>
   validateForm (scenario_record\<lparr>consent_data_processing := False\<rparr>) K_consent_data_processing =
     Some (Msg (js ''Data processing consent is required''))"
proof -
  have keys: "object_keys (validateForm (scenario_record\<lparr>consent_data_processing := False\<rparr>)) =
      [K_consent_data_processing]"
    by code_simp
  have off: "\<not> consent_data_processing (scenario_record\<lparr>consent_data_processing := False\<rparr>)"
    by simp
  from keys off validateForm_consent_required [OF off] show ?thesis
    by blast
qed

section \<open>Properties of the submission state machine\<close>

subsection \<open>What each handler leaves alone\<close>

lemma handleInputChange_flags [simp]:
  "isSubmitting (formState (handleInputChange fi c)) = isSubmitting (formState c)"
  "isSubmitted (formState (handleInputChange fi c)) = isSubmitted (formState c)"
  "sessionId (handleInputChange fi c) = sessionId c"
  by (simp_all add: handleInputChange_def Let_def)

lemma handleBlur_flags [simp]:
  "isSubmitting (formState (handleBlur fi c)) = isSubmitting (formState c)"
  "isSubmitted (formState (handleBlur fi c)) = isSubmitted (formState c)"
  "sessionId (handleBlur fi c) = sessionId c"
  "formData (handleBlur fi c) = formData c"
  by (simp_all add: handleBlur_def Let_def)

lemma handleSubmit_settle_flags:
  "\<not> isSubmitting (formState (handleSubmit_settle out c))"
  "sessionId (handleSubmit_settle out c) = sessionId c"
  "formData (handleSubmit_settle out c) = formData c"
  by (cases out; simp)+

subsection \<open>The two branches of \<open>handleSubmit\<close>\<close>

text \<open>
  Neither branch looks at \<open>isSubmitting\<close> or \<open>isSubmitted\<close>: called in any state with a
  record that passes, the handler calls \<open>fetch\<close>.
\<close>

lemma handleSubmit_start_invalid:
  assumes "validateForm (formData c) \<noteq> Map.empty"
  shows "handleSubmit_start t0 t1 c =
    (c\<lparr>formState := (formState c)\<lparr>isSubmitting := False, error := None,
        submissionStartTime := Some t0, validationErrors := validateForm (formData c)\<rparr>\<rparr>, None)"
  using assms by (simp add: handleSubmit_start_def has_keys_iff Let_def)

lemma handleSubmit_start_valid:
  assumes "validateForm (formData c) = Map.empty"
  shows "handleSubmit_start t0 t1 c =
    (c\<lparr>formState := (formState c)\<lparr>isSubmitting := True, error := None,
        submissionStartTime := Some t0\<rparr>\<rparr>,
     Some \<lparr>url = js ''/api/contact'', http_method = js ''POST'',
           content_type = js ''application/json'',
           body = \<lparr>form_data = formData c,
                   metadata = \<lparr>session_id = sessionId c, form_version = js ''1.0.0'',
                                submission_duration_ms = t1 - t0\<rparr>\<rparr>\<rparr>)"
  using assms by (simp add: handleSubmit_start_def has_keys_iff Let_def)

subsection \<open>Pressing the submit button\<close>

lemma step_Submit_blocked:
  assumes "\<not> form_checkValidity (formData (contactForm s))"
  shows "step (Submit t0 t1) s = s"
  using assms by simp

lemma step_Submit_invalid:
  assumes "form_enabled (contactForm s)" and "form_checkValidity (formData (contactForm s))"
    and "validateForm (formData (contactForm s)) \<noteq> Map.empty"
  shows "step (Submit t0 t1) s =
    s\<lparr>contactForm := (contactForm s)\<lparr>formState := (formState (contactForm s))
        \<lparr>isSubmitting := False, error := None, submissionStartTime := Some t0,
         validationErrors := validateForm (formData (contactForm s))\<rparr>\<rparr>\<rparr>"
  using assms by (simp add: handleSubmit_start_invalid)

lemma step_Submit_valid:
  assumes "form_enabled (contactForm s)" and "form_checkValidity (formData (contactForm s))"
    and "validateForm (formData (contactForm s)) = Map.empty"
  shows "step (Submit t0 t1) s =
    s\<lparr>contactForm := (contactForm s)\<lparr>formState := (formState (contactForm s))
        \<lparr>isSubmitting := True, error := None, submissionStartTime := Some t0\<rparr>\<rparr>,
      in_flight := in_flight s @
        [\<lparr>url = js ''/api/contact'', http_method = js ''POST'',
          content_type = js ''application/json'',
          body = \<lparr>form_data = formData (contactForm s),
                  metadata = \<lparr>session_id = sessionId (contactForm s), form_version = js ''1.0.0'',
                               submission_duration_ms = t1 - t0\<rparr>\<rparr>\<rparr>],
      calls := calls s + 1\<rparr>"
  using assms by (simp add: handleSubmit_start_valid)

lemma settle_after_submit:
  assumes "form_enabled (contactForm s)" and "form_checkValidity (formData (contactForm s))"
    and "in_flight s = []"
    and "validateForm (formData (contactForm s)) = Map.empty"
  shows "step (Settle out) (step (Submit t0 t1) s) =
    s\<lparr>contactForm := handleSubmit_settle out
         ((contactForm s)\<lparr>formState := (formState (contactForm s))\<lparr>isSubmitting := True,
            error := None, submissionStartTime := Some t0\<rparr>\<rparr>),
      in_flight := [], calls := calls s + 1\<rparr>"
  unfolding step_Submit_valid [OF assms(1,2,4)] using assms(3) by simp

subsection \<open>Every run keeps component and transport consistent\<close>

lemma step_consistent:
  assumes "consistent s"
  shows "consistent (step e s)"
proof (cases e)
  case (Change fi)
  with assms show ?thesis by (simp add: consistent_def)
next
  case (Blur fi)
  with assms show ?thesis by (simp add: consistent_def)
next
  case (Submit t0 t1)
  show ?thesis
  proof (cases "form_enabled (contactForm s) \<and> form_checkValidity (formData (contactForm s))")
    case False
    then have "step (Submit t0 t1) s = s"
      by auto
    with Submit assms show ?thesis
      by (simp only:)
  next
    case True
    then have enabled: "form_enabled (contactForm s)"
      and delivered: "form_checkValidity (formData (contactForm s))"
      by simp_all
    from assms enabled have idle: "in_flight s = []"
      by (simp add: consistent_def form_enabled_def)
    show ?thesis
    proof (cases "validateForm (formData (contactForm s)) = Map.empty")
      case valid: True
      from enabled idle show ?thesis
        unfolding Submit step_Submit_valid [OF enabled delivered valid]
        by (simp add: consistent_def form_enabled_def)
    next
      case invalid: False
      from idle show ?thesis
        unfolding Submit step_Submit_invalid [OF enabled delivered invalid]
        by (simp add: consistent_def)
    qed
  qed
next
  case (Settle out)
  show ?thesis
  proof (cases "in_flight s")
    case Nil
    with Settle assms show ?thesis by simp
  next
    case (Cons req rest)
    with assms have "rest = []"
      by (simp add: consistent_def split: if_splits)
    with Cons Settle show ?thesis
      by (simp add: consistent_def handleSubmit_settle_flags)
  qed
next
  case Reset
  with assms show ?thesis
    by (auto simp: consistent_def resetForm_def initial_formState_def split: if_splits)
qed

lemma consistent_mount: "consistent (mount sid)"
  by (simp add: consistent_def mount_def mount_component_def initial_formState_def)

lemma run_consistent_from: "consistent s \<Longrightarrow> consistent (run evs s)"
  unfolding run_def by (induction evs arbitrary: s) (simp_all add: step_consistent)

lemma run_consistent: "consistent (run evs (mount sid))"
  by (rule run_consistent_from [OF consistent_mount])

lemma enabled_no_in_flight:
  "form_enabled (contactForm (run evs (mount sid))) \<Longrightarrow> in_flight (run evs (mount sid)) = []"
  using run_consistent [of evs sid] by (simp add: consistent_def form_enabled_def)

subsection \<open>No handler writes \<open>sessionId\<close>\<close>

lemma step_sessionId: "sessionId (contactForm (step e s)) = sessionId (contactForm s)"
proof (cases e)
  case (Submit t0 t1)
  then show ?thesis
    by (cases "validateForm (formData (contactForm s)) = Map.empty")
       (simp_all add: handleSubmit_start_valid handleSubmit_start_invalid)
next
  case (Settle out)
  then show ?thesis by (simp add: handleSubmit_settle_flags split: list.splits)
qed (simp_all add: resetForm_def)

lemma run_sessionId: "sessionId (contactForm (run evs s)) = sessionId (contactForm s)"
  unfolding run_def by (induction evs arbitrary: s) (simp_all add: step_sessionId)

subsection \<open>The scenario states as runs\<close>

lemma run_snoc: "run (evs @ [e]) s = step e (run evs s)"
  by (simp add: run_def)

lemma scenario_form_run: "scenario_form fd = run (fill fd) (mount scenario_session)"
  by (rule scenario_form_def)

subsection \<open>A submit attempt that fails validation\<close>

text \<open>
  Claim C1, amended.  In a state where the form is shown and enabled, a submit attempt on a
  record for which \<open>validateForm\<close> returns a non-empty object calls \<open>fetch\<close> not at all and
  ends with \<open>isSubmitting\<close> and \<open>isSubmitted\<close> both false; a record whose email fails the
  email expression is such a record.  When the e-mail input passes the browser's check (it
  is empty or a valid e-mail address of HTML), \<open>handleSubmit\<close> runs, stores the whole result
  of \<open>validateForm\<close> as \<open>validationErrors\<close> and sets \<open>error\<close> to null.  When it does not, the
  browser fires no \<open>submit\<close> event and the state, \<open>validationErrors\<close> included, is what it
  was.  The handler by itself, whenever it is called on such a record, calls no \<open>fetch\<close> and
  stores the result of \<open>validateForm\<close>.
\<close>

theorem submit_invalid_no_call:
  assumes "form_enabled (contactForm s)"
    and "validateForm (formData (contactForm s)) \<noteq> Map.empty \<or>
         \<not> rx_test emailRegex (email (formData (contactForm s)))"
  shows "validateForm (formData (contactForm s)) \<noteq> Map.empty
    \<and> snd (handleSubmit_start t0 t1 (contactForm s)) = None
    \<and> validationErrors (formState (fst (handleSubmit_start t0 t1 (contactForm s)))) =
        validateForm (formData (contactForm s))
    \<and> calls (step (Submit t0 t1) s) = calls s
    \<and> in_flight (step (Submit t0 t1) s) = in_flight s
    \<and> \<not> isSubmitting (formState (contactForm (step (Submit t0 t1) s)))
    \<and> \<not> isSubmitted (formState (contactForm (step (Submit t0 t1) s)))
    \<and> formData (contactForm (step (Submit t0 t1) s)) = formData (contactForm s)
    \<and> (form_checkValidity (formData (contactForm s)) \<longrightarrow>
          validationErrors (formState (contactForm (step (Submit t0 t1) s))) =
            validateForm (formData (contactForm s))
          \<and> error (formState (contactForm (step (Submit t0 t1) s))) = None)
    \<and> (\<not> form_checkValidity (formData (contactForm s)) \<longrightarrow> step (Submit t0 t1) s = s)"
proof -
  have invalid: "validateForm (formData (contactForm s)) \<noteq> Map.empty"
  proof (cases "rx_test emailRegex (email (formData (contactForm s)))")
    case True
    with assms(2) show ?thesis by simp
  next
    case False
    then have "truthy (validateForm (formData (contactForm s)) K_email)"
      by (rule validateForm_email_invalid)
    then show ?thesis by auto
  qed
  have handler: "snd (handleSubmit_start t0 t1 (contactForm s)) = None
    \<and> validationErrors (formState (fst (handleSubmit_start t0 t1 (contactForm s)))) =
        validateForm (formData (contactForm s))"
    unfolding handleSubmit_start_invalid [OF invalid] by simp
  show ?thesis
  proof (cases "form_checkValidity (formData (contactForm s))")
    case True
    show ?thesis
      unfolding step_Submit_invalid [OF assms(1) True invalid]
      using assms(1) invalid handler True by (simp add: form_enabled_def)
  next
    case False
    show ?thesis
      unfolding step_Submit_blocked [OF False]
      using assms(1) invalid handler False by (simp add: form_enabled_def)
  qed
qed

text \<open>
  The record of the scenarios with the email \<open>ann@ex\<close>, which the browser accepts and the
  email expression rejects for want of a dot: the handler runs and stores the email message.
  The same record with the email \<open>not-an-email\<close>, which the browser rejects: nothing is
  stored.
\<close>

theorem submit_invalid_no_call_witness:
  "form_enabled (contactForm (scenario_form (scenario_record\<lparr>email := js ''ann@ex''\<rparr>)))
   \<and> form_checkValidity (formData (contactForm
         (scenario_form (scenario_record\<lparr>email := js ''ann@ex''\<rparr>))))
   \<and> \<not> rx_test emailRegex (email (formData (contactForm
         (scenario_form (scenario_record\<lparr>email := js ''ann@ex''\<rparr>)))))
   \<and> calls (step (Submit 1000 1001)
         (scenario_form (scenario_record\<lparr>email := js ''ann@ex''\<rparr>))) = 0
   \<and> validationErrors (formState (contactForm (step (Submit 1000 1001)
         (scenario_form (scenario_record\<lparr>email := js ''ann@ex''\<rparr>))))) K_email =
       Some (Msg (js ''Please enter a valid email address''))
   \<and> \<not> isSubmitting (formState (contactForm (step (Submit 1000 1001)
         (scenario_form (scenario_record\<lparr>email := js ''ann@ex''\<rparr>)))))
   \<and> \<not> isSubmitted (formState (contactForm (step (Submit 1000 1001)
         (scenario_form (scenario_record\<lparr>email := js ''ann@ex''\<rparr>)))))
   \<and> \<not> form_checkValidity (formData (contactForm
         (scenario_form (scenario_record\<lparr>email := js ''not-an-email''\<rparr>))))
   \<and> step (Submit 1000 1001) (scenario_form (scenario_record\<lparr>email := js ''not-an-email''\<rparr>)) =
       scenario_form (scenario_record\<lparr>email := js ''not-an-email''\<rparr>)"
proof -
  define s where "s = scenario_form (scenario_record\<lparr>email := js ''ann@ex''\<rparr>)"
  define b where "b = scenario_form (scenario_record\<lparr>email := js ''not-an-email''\<rparr>)"
  have enabled: "form_enabled (contactForm s)"
    unfolding s_def by code_simp
  have delivered: "form_checkValidity (formData (contactForm s))"
    unfolding s_def by code_simp
  have bad_email: "\<not> rx_test emailRegex (email (formData (contactForm s)))"
    unfolding s_def by code_simp
  have no_calls: "calls s = 0"
    unfolding s_def by code_simp
  have msg: "validateForm (formData (contactForm s)) K_email =
      Some (Msg (js ''Please enter a valid email address''))"
    unfolding s_def by code_simp
  have enabled': "form_enabled (contactForm b)"
    unfolding b_def by code_simp
  have blocked: "\<not> form_checkValidity (formData (contactForm b))"
    unfolding b_def by code_simp
  have bad_email': "\<not> rx_test emailRegex (email (formData (contactForm b)))"
    unfolding b_def by code_simp
  note first = submit_invalid_no_call [OF enabled disjI2 [OF bad_email], of 1000 1001]
  note second = submit_invalid_no_call [OF enabled' disjI2 [OF bad_email'], of 1000 1001]
  from first second enabled delivered bad_email no_calls msg blocked show ?thesis
    unfolding s_def b_def by metis
qed

text \<open>
  Claim C1 as first stated has every such attempt publish the recomputed error set.  At its
  own example, the email \<open>not-an-email\<close> typed into a freshly mounted form, \<open>validateForm\<close>
  returns the email message, the browser rejects the value, and after the attempt
  \<open>validationErrors\<close> is as empty as before.
\<close>

theorem submit_invalid_counterexample:
  "validateForm (formData (contactForm
       (scenario_form (scenario_record\<lparr>email := js ''not-an-email''\<rparr>)))) K_email =
     Some (Msg (js ''Please enter a valid email address''))
   \<and> email_type_mismatch (js ''not-an-email'')
   \<and> object_keys (validationErrors (formState (contactForm (step (Submit 1000 1001)
       (scenario_form (scenario_record\<lparr>email := js ''not-an-email''\<rparr>)))))) = []
   \<and> calls (step (Submit 1000 1001)
       (scenario_form (scenario_record\<lparr>email := js ''not-an-email''\<rparr>))) = 0"
  by code_simp

subsection \<open>A submit attempt that the backend acknowledges\<close>

text \<open>
  Claim C2, amended.  In every reachable state where the form is shown and enabled, the
  browser lets the submission through and the record passes \<open>validateForm\<close>, a submit
  attempt calls \<open>fetch\<close> once with the record and enters Submitting; when the answer has \<open>response.ok\<close> and a body with \<open>event_id\<close> and
  \<open>correlation_id\<close>, the component ends Submitted with exactly these two identifiers and
  with \<open>error\<close> null.  \<open>validationErrors\<close> is not written on this path: it is what it was
  before the attempt.
\<close>

theorem submit_success:
  assumes "s = run evs (mount sid)"
    and "form_enabled (contactForm s)"
    and "form_checkValidity (formData (contactForm s))"
    and "validateForm (formData (contactForm s)) = Map.empty"
    and "s1 = step (Submit t0 t1) s"
    and "s2 = step (Settle (Responded True (Result (Some ev) (Some corr) err))) s1"
  shows "isSubmitting (formState (contactForm s1)) \<and> \<not> isSubmitted (formState (contactForm s1))
    \<and> calls s1 = calls s + 1 \<and> length (in_flight s1) = 1
    \<and> form_data (body (hd (in_flight s1))) = formData (contactForm s)
    \<and> isSubmitted (formState (contactForm s2)) \<and> \<not> isSubmitting (formState (contactForm s2))
    \<and> eventId (formState (contactForm s2)) = Some ev
    \<and> correlationId (formState (contactForm s2)) = Some corr
    \<and> error (formState (contactForm s2)) = None
    \<and> validationErrors (formState (contactForm s2)) = validationErrors (formState (contactForm s))
    \<and> formData (contactForm s2) = formData (contactForm s)
    \<and> in_flight s2 = [] \<and> calls s2 = calls s + 1"
proof -
  have idle: "in_flight s = []"
    using assms(1,2) enabled_no_in_flight by simp
  have s1: "isSubmitting (formState (contactForm s1)) \<and> \<not> isSubmitted (formState (contactForm s1))
    \<and> calls s1 = calls s + 1 \<and> length (in_flight s1) = 1
    \<and> form_data (body (hd (in_flight s1))) = formData (contactForm s)"
    unfolding assms(5) step_Submit_valid [OF assms(2,3,4)]
    using idle assms(2) by (simp add: form_enabled_def)
  have s2: "s2 = s\<lparr>contactForm :=
        handleSubmit_settle (Responded True (Result (Some ev) (Some corr) err))
          ((contactForm s)\<lparr>formState := (formState (contactForm s))\<lparr>isSubmitting := True,
            error := None, submissionStartTime := Some t0\<rparr>\<rparr>),
      in_flight := [], calls := calls s + 1\<rparr>"
    unfolding assms(5,6) by (rule settle_after_submit [OF assms(2,3) idle assms(4)])
  show ?thesis
    using s1 unfolding s2 by simp
qed

text \<open>
  The first end-to-end scenario: the record of the scenarios, typed into a freshly mounted
  form, against the mock that answers 200 with \<open>ev-1\<close> and \<open>corr-1\<close>.  No validation error
  was stored before the attempt, so none is stored after it.
\<close>

theorem submit_success_witness:
  "form_enabled (contactForm (scenario_form scenario_record))
   \<and> form_checkValidity (formData (contactForm (scenario_form scenario_record)))
   \<and> \<not> has_keys (validateForm (formData (contactForm (scenario_form scenario_record))))
   \<and> isSubmitted (formState (contactForm (step (Settle scenario_ok)
        (step (Submit 1000 1001) (scenario_form scenario_record)))))
   \<and> \<not> isSubmitting (formState (contactForm (step (Settle scenario_ok)
        (step (Submit 1000 1001) (scenario_form scenario_record)))))
   \<and> eventId (formState (contactForm (step (Settle scenario_ok)
        (step (Submit 1000 1001) (scenario_form scenario_record))))) = Some (js ''ev-1'')
   \<and> correlationId (formState (contactForm (step (Settle scenario_ok)
        (step (Submit 1000 1001) (scenario_form scenario_record))))) = Some (js ''corr-1'')
   \<and> error (formState (contactForm (step (Settle scenario_ok)
        (step (Submit 1000 1001) (scenario_form scenario_record))))) = None
   \<and> validationErrors (formState (contactForm (step (Settle scenario_ok)
        (step (Submit 1000 1001) (scenario_form scenario_record))))) = Map.empty"
proof -
  define s where "s = scenario_form scenario_record"
  have reached: "s = run (fill scenario_record) (mount scenario_session)"
    unfolding s_def by (rule scenario_form_run)
  have enabled: "form_enabled (contactForm s)"
    unfolding s_def by code_simp
  have delivered: "form_checkValidity (formData (contactForm s))"
    unfolding s_def by code_simp
  have no_keys: "\<not> has_keys (validateForm (formData (contactForm s)))"
    unfolding s_def by code_simp
  then have valid: "validateForm (formData (contactForm s)) = Map.empty"
    by (simp add: has_keys_iff)
  have "\<not> has_keys (validationErrors (formState (contactForm s)))"
    unfolding s_def by code_simp
  then have clean: "validationErrors (formState (contactForm s)) = Map.empty"
    by (simp add: has_keys_iff)
  note main = submit_success [OF reached enabled delivered valid refl refl,
      of 1000 1001 "js ''ev-1''" "js ''corr-1''" None]
  from main enabled delivered no_keys clean show ?thesis
    unfolding s_def scenario_ok_def by metis
qed

text \<open>
  Claim C2 as first stated has the error state cleared and the error set empty at the end
  of every such attempt.  Here the phone input holds \<open>abc\<close> and loses focus, which stores
  the phone message; the attempt passes \<open>validateForm\<close>, which skips the phone, the mock
  answers 200, and the component is Submitted with the phone message still stored.
\<close>

theorem submit_success_counterexample:
  "calls (run [Blur (F_phone (js ''abc'')), Submit 1000 1001, Settle scenario_ok]
       (scenario_form (scenario_record\<lparr>phone := js ''abc''\<rparr>))) = 1
   \<and> isSubmitted (formState (contactForm
       (run [Blur (F_phone (js ''abc'')), Submit 1000 1001, Settle scenario_ok]
         (scenario_form (scenario_record\<lparr>phone := js ''abc''\<rparr>)))))
   \<and> eventId (formState (contactForm
       (run [Blur (F_phone (js ''abc'')), Submit 1000 1001, Settle scenario_ok]
         (scenario_form (scenario_record\<lparr>phone := js ''abc''\<rparr>))))) = Some (js ''ev-1'')
   \<and> validationErrors (formState (contactForm
       (run [Blur (F_phone (js ''abc'')), Submit 1000 1001, Settle scenario_ok]
         (scenario_form (scenario_record\<lparr>phone := js ''abc''\<rparr>))))) K_phone =
       Some (Msg (js ''Please enter a valid phone number''))"
  by code_simp

subsection \<open>A submit attempt that fails after validation\<close>

lemma failed_state:
  assumes "form_enabled (contactForm s)" and "form_checkValidity (formData (contactForm s))"
    and "in_flight s = []"
    and "validateForm (formData (contactForm s)) = Map.empty"
    and "handleSubmit_settle out
           ((contactForm s)\<lparr>formState := (formState (contactForm s))\<lparr>isSubmitting := True,
              error := None, submissionStartTime := Some t0\<rparr>\<rparr>) =
         (contactForm s)\<lparr>formState := (formState (contactForm s))\<lparr>isSubmitting := False,
              error := Some m, submissionStartTime := Some t0\<rparr>\<rparr>"
    and "sF = step (Settle out) (step (Submit t0 t1) s)"
  shows "\<not> isSubmitting (formState (contactForm sF)) \<and> \<not> isSubmitted (formState (contactForm sF))
    \<and> error (formState (contactForm sF)) = Some m
    \<and> in_flight sF = [] \<and> calls sF = calls s + 1
    \<and> form_enabled (contactForm sF)
    \<and> formData (contactForm sF) = formData (contactForm s)
    \<and> isSubmitting (formState (contactForm (step (Submit t2 t3) sF)))
    \<and> length (in_flight (step (Submit t2 t3) sF)) = 1
    \<and> calls (step (Submit t2 t3) sF) = calls s + 2"
proof -
  have sF: "sF = s\<lparr>contactForm := (contactForm s)\<lparr>formState := (formState (contactForm s))
         \<lparr>isSubmitting := False, error := Some m, submissionStartTime := Some t0\<rparr>\<rparr>,
       in_flight := [], calls := calls s + 1\<rparr>"
    unfolding assms(6) settle_after_submit [OF assms(1-4)] assms(5) ..
  have enabled: "form_enabled (contactForm sF)"
    using assms(1) unfolding sF by (simp add: form_enabled_def)
  have delivered: "form_checkValidity (formData (contactForm sF))"
    using assms(2) unfolding sF by simp
  have valid: "validateForm (formData (contactForm sF)) = Map.empty"
    using assms(4) unfolding sF by simp
  have again: "isSubmitting (formState (contactForm (step (Submit t2 t3) sF)))
    \<and> length (in_flight (step (Submit t2 t3) sF)) = 1
    \<and> calls (step (Submit t2 t3) sF) = calls sF + 1"
    unfolding step_Submit_valid [OF enabled delivered valid]
    by (simp add: sF)
  have now: "\<not> isSubmitting (formState (contactForm sF)) \<and> \<not> isSubmitted (formState (contactForm sF))
    \<and> error (formState (contactForm sF)) = Some m
    \<and> in_flight sF = [] \<and> calls sF = calls s + 1
    \<and> formData (contactForm sF) = formData (contactForm s)"
    using assms(1) unfolding sF by (simp add: form_enabled_def)
  from now enabled again show ?thesis by simp
qed

text \<open>
  Claim C3, amended.  In every reachable state where the form is shown and enabled, the
  browser lets the submission through and the record passes \<open>validateForm\<close>, the attempt
  ends Failed (both flags false, a message in
  \<open>error\<close>) in each of these cases: the answer is not \<open>response.ok\<close> and its body has a
  non-empty \<open>error\<close> string, which is the message; the answer is not \<open>response.ok\<close> and
  its body has an empty \<open>error\<close> string or none, and the message is
  \<open>Failed to submit form\<close>; \<open>fetch\<close> or \<open>response.json()\<close> threw, and the message is that
  of the thrown error.  In each case the form is enabled again, and a further submit
  attempt on the unchanged record passes the same gate, calls \<open>fetch\<close> a second time and
  enters Submitting.
\<close>

theorem submit_failure:
  assumes "s = run evs (mount sid)"
    and "form_enabled (contactForm s)"
    and "form_checkValidity (formData (contactForm s))"
    and "validateForm (formData (contactForm s)) = Map.empty"
    and "out = Responded False (Result e c (Some m)) \<and> m \<noteq> [] \<and> msg = m
       \<or> out = Responded False (Result e c (Some [])) \<and> msg = js ''Failed to submit form''
       \<or> out = Responded False (Result e c None) \<and> msg = js ''Failed to submit form''
       \<or> out = Threw msg"
    and "sF = step (Settle out) (step (Submit t0 t1) s)"
  shows "\<not> isSubmitting (formState (contactForm sF)) \<and> \<not> isSubmitted (formState (contactForm sF))
    \<and> error (formState (contactForm sF)) = Some msg
    \<and> in_flight sF = [] \<and> calls sF = calls s + 1
    \<and> form_enabled (contactForm sF)
    \<and> formData (contactForm sF) = formData (contactForm s)
    \<and> isSubmitting (formState (contactForm (step (Submit t2 t3) sF)))
    \<and> length (in_flight (step (Submit t2 t3) sF)) = 1
    \<and> calls (step (Submit t2 t3) sF) = calls s + 2"
proof -
  have idle: "in_flight s = []"
    using assms(1,2) enabled_no_in_flight by simp
  have "handleSubmit_settle out
           ((contactForm s)\<lparr>formState := (formState (contactForm s))\<lparr>isSubmitting := True,
              error := None, submissionStartTime := Some t0\<rparr>\<rparr>) =
         (contactForm s)\<lparr>formState := (formState (contactForm s))\<lparr>isSubmitting := False,
              error := Some msg, submissionStartTime := Some t0\<rparr>\<rparr>"
    using assms(5) by (auto simp: thrown_message_def)
  then show ?thesis
    using assms(6) by (rule failed_state [OF assms(2,3) idle assms(4)])
qed

text \<open>
  The second end-to-end scenario: the mock answers 422 with
  \<open>{error: "duplicate submission"}\<close>, and the record is submitted again.
\<close>

theorem submit_failure_witness:
  "form_enabled (contactForm (scenario_form scenario_record))
   \<and> form_checkValidity (formData (contactForm (scenario_form scenario_record)))
   \<and> \<not> has_keys (validateForm (formData (contactForm (scenario_form scenario_record))))
   \<and> \<not> isSubmitting (formState (contactForm (step (Settle scenario_rejected)
        (step (Submit 1000 1001) (scenario_form scenario_record)))))
   \<and> \<not> isSubmitted (formState (contactForm (step (Settle scenario_rejected)
        (step (Submit 1000 1001) (scenario_form scenario_record)))))
   \<and> error (formState (contactForm (step (Settle scenario_rejected)
        (step (Submit 1000 1001) (scenario_form scenario_record))))) =
       Some (js ''duplicate submission'')
   \<and> isSubmitting (formState (contactForm (step (Submit 2000 2001) (step (Settle scenario_rejected)
        (step (Submit 1000 1001) (scenario_form scenario_record))))))
   \<and> calls (step (Submit 2000 2001) (step (Settle scenario_rejected)
        (step (Submit 1000 1001) (scenario_form scenario_record)))) = 2
   \<and> error (formState (contactForm (step (Settle (Threw (js ''Failed to fetch'')))
        (step (Submit 1000 1001) (scenario_form scenario_record))))) =
       Some (js ''Failed to fetch'')
   \<and> calls (step (Submit 2000 2001) (step (Settle (Threw (js ''Failed to fetch'')))
        (step (Submit 1000 1001) (scenario_form scenario_record)))) = 2"
proof -
  define s where "s = scenario_form scenario_record"
  have reached: "s = run (fill scenario_record) (mount scenario_session)"
    unfolding s_def by (rule scenario_form_run)
  have enabled: "form_enabled (contactForm s)"
    unfolding s_def by code_simp
  have delivered: "form_checkValidity (formData (contactForm s))"
    unfolding s_def by code_simp
  have no_keys: "\<not> has_keys (validateForm (formData (contactForm s)))"
    unfolding s_def by code_simp
  then have valid: "validateForm (formData (contactForm s)) = Map.empty"
    by (simp add: has_keys_iff)
  have none: "calls s = 0"
    unfolding s_def by code_simp
  have out: "scenario_rejected = Responded False (Result None None (Some (js ''duplicate submission'')))
      \<and> js ''duplicate submission'' \<noteq> [] \<and> js ''duplicate submission'' = js ''duplicate submission''"
    by (simp add: scenario_rejected_def js_def)
  have thrown: "out = Responded False (Result e c (Some m)) \<and> m \<noteq> [] \<and> msg = m
       \<or> out = Responded False (Result e c (Some [])) \<and> msg = js ''Failed to submit form''
       \<or> out = Responded False (Result e c None) \<and> msg = js ''Failed to submit form''
       \<or> out = Threw msg"
    if "out = Threw msg" for out e c m and msg :: jsstring
    using that by simp
  note rejected = submit_failure [OF reached enabled delivered valid disjI1 [OF out] refl,
      of 1000 1001 2000 2001]
  note failed = submit_failure [OF reached enabled delivered valid thrown [OF refl] refl,
      of "js ''Failed to fetch''" 1000 1001 2000 2001]
  from rejected failed enabled delivered no_keys none show ?thesis
    unfolding s_def by (simp del: step.simps)
qed

text \<open>
  Claim C3 as first stated has every \<open>error\<close> string of a rejecting body carried verbatim
  and every transport failure end with a generic message.  The empty \<open>error\<close> string is not
  carried: \<open>result.error || 'Failed to submit form'\<close> replaces it.  And a transport failure
  ends with whatever message the thrown error has: when \<open>response.json()\<close> rejects an empty
  body the stored message is the parser's, when \<open>fetch\<close> rejects it is the network
  layer's, and neither is the fixed message of the component.
\<close>

theorem submit_failure_counterexample:
  "error (formState (contactForm
       (run [Submit 1000 1001, Settle (Responded False (Result None None (Some [])))]
         (scenario_form scenario_record)))) = Some (js ''Failed to submit form'')
   \<and> error (formState (contactForm
       (run [Submit 1000 1001, Settle (Responded False (Result None None (Some [])))]
         (scenario_form scenario_record)))) \<noteq> Some []
   \<and> error (formState (contactForm
       (run [Submit 1000 1001, Settle (Threw (js ''Unexpected end of JSON input''))]
         (scenario_form scenario_record)))) = Some (js ''Unexpected end of JSON input'')
   \<and> error (formState (contactForm
       (run [Submit 1000 1001, Settle (Threw (js ''Failed to fetch''))]
         (scenario_form scenario_record)))) = Some (js ''Failed to fetch'')
   \<and> js ''Unexpected end of JSON input'' \<noteq> js ''Failed to submit form''
   \<and> js ''Failed to fetch'' \<noteq> js ''Failed to submit form''
   \<and> js ''Unexpected end of JSON input'' \<noteq> js ''Failed to fetch''
   \<and> calls (run [Submit 1000 1001, Settle (Threw (js ''Unexpected end of JSON input''))]
         (scenario_form scenario_record)) = 1"
  by code_simp

subsection \<open>Submitting twice\<close>

text \<open>
  Claim C4.  In every run from the mounted component at most one request is pending, and a
  submit attempt in a state with \<open>isSubmitting\<close> changes nothing: not the component, not
  the pending request, not the number of calls of \<open>fetch\<close>.  What stops the attempt is the
  disabled submit button; \<open>handleSubmit\<close> has no test of its own (see
  \<open>handleSubmit_start_valid\<close>).
\<close>

theorem no_reentrant_submit:
  "length (in_flight (run evs (mount sid))) \<le> 1
   \<and> (isSubmitting (formState (contactForm (run evs (mount sid)))) \<longrightarrow>
        step (Submit t0 t1) (run evs (mount sid)) = run evs (mount sid)
        \<and> calls (step (Submit t0 t1) (run evs (mount sid))) = calls (run evs (mount sid))
        \<and> length (in_flight (run evs (mount sid))) = 1)"
proof -
  have consistent: "consistent (run evs (mount sid))"
    by (rule run_consistent)
  then have "length (in_flight (run evs (mount sid))) \<le> 1"
    by (simp add: consistent_def split: if_splits)
  moreover have "step (Submit t0 t1) (run evs (mount sid)) = run evs (mount sid)"
    if "isSubmitting (formState (contactForm (run evs (mount sid))))"
    using that by (simp add: form_enabled_def)
  moreover have "length (in_flight (run evs (mount sid))) = 1"
    if "isSubmitting (formState (contactForm (run evs (mount sid))))"
    using that consistent by (simp add: consistent_def)
  ultimately show ?thesis
    by (simp del: step.simps)
qed

text \<open>
  The record of the scenarios is submitted and, before any answer, submitted again: one
  call of \<open>fetch\<close>, one pending request.
\<close>

theorem no_reentrant_submit_witness:
  "isSubmitting (formState (contactForm (step (Submit 1000 1001) (scenario_form scenario_record))))
   \<and> calls (step (Submit 1000 1001) (scenario_form scenario_record)) = 1
   \<and> calls (step (Submit 2000 2001)
        (step (Submit 1000 1001) (scenario_form scenario_record))) = 1
   \<and> length (in_flight (step (Submit 2000 2001)
        (step (Submit 1000 1001) (scenario_form scenario_record)))) = 1"
proof -
  define s where "s = step (Submit 1000 1001) (scenario_form scenario_record)"
  have reached: "s = run (fill scenario_record @ [Submit 1000 1001]) (mount scenario_session)"
    unfolding s_def scenario_form_run run_snoc ..
  have submitting: "isSubmitting (formState (contactForm s))"
    unfolding s_def by code_simp
  have one: "calls s = 1"
    unfolding s_def by code_simp
  have "step (Submit 2000 2001) s = s \<and> length (in_flight s) = 1"
    using no_reentrant_submit [of "fill scenario_record @ [Submit 1000 1001]" scenario_session
        2000 2001]
      submitting unfolding reached by blast
  with submitting one show ?thesis
    unfolding s_def by (simp del: step.simps)
qed

subsection \<open>Reset\<close>

text \<open>
  Claim C5, amended.  From a state with \<open>isSubmitted\<close>, the reset button yields the initial
  record (every string empty, both consents false) and the initial \<open>formState\<close> (both flags
  false, \<open>error\<close> null, no validation error, no start time, no identifiers).  \<open>sessionId\<close>
  is the one of before the reset, and no run of events changes it: it is chosen when the
  component is mounted and never again.
\<close>

theorem reset_keeps_session:
  assumes "isSubmitted (formState (contactForm s))"
  shows "formData (contactForm (step Reset s)) = initial_formData
    \<and> formState (contactForm (step Reset s)) = initial_formState
    \<and> \<not> isSubmitting (formState (contactForm (step Reset s)))
    \<and> \<not> isSubmitted (formState (contactForm (step Reset s)))
    \<and> error (formState (contactForm (step Reset s))) = None
    \<and> validationErrors (formState (contactForm (step Reset s))) = Map.empty
    \<and> eventId (formState (contactForm (step Reset s))) = None
    \<and> correlationId (formState (contactForm (step Reset s))) = None
    \<and> submissionStartTime (formState (contactForm (step Reset s))) = None
    \<and> sessionId (contactForm (step Reset s)) = sessionId (contactForm s)
    \<and> sessionId (contactForm (run evs s)) = sessionId (contactForm s)"
proof -
  have "step Reset s = s\<lparr>contactForm := resetForm (contactForm s)\<rparr>"
    using assms by simp
  then have reset: "contactForm (step Reset s) =
      (contactForm s)\<lparr>formData := initial_formData, formState := initial_formState\<rparr>"
    by (simp add: resetForm_def)
  show ?thesis
    unfolding reset by (simp add: initial_formState_def run_sessionId)
qed

text \<open>The first scenario, run to Submitted, then reset.\<close>

theorem reset_keeps_session_witness:
  "isSubmitted (formState (contactForm
     (run [Submit 1000 1001, Settle scenario_ok] (scenario_form scenario_record))))
   \<and> formData (contactForm (step Reset
     (run [Submit 1000 1001, Settle scenario_ok] (scenario_form scenario_record)))) =
       initial_formData
   \<and> formState (contactForm (step Reset
     (run [Submit 1000 1001, Settle scenario_ok] (scenario_form scenario_record)))) =
       initial_formState
   \<and> sessionId (contactForm (step Reset
     (run [Submit 1000 1001, Settle scenario_ok] (scenario_form scenario_record)))) =
       scenario_session"
proof -
  define s where "s = run [Submit 1000 1001, Settle scenario_ok] (scenario_form scenario_record)"
  have submitted: "isSubmitted (formState (contactForm s))"
    unfolding s_def by code_simp
  have session: "sessionId (contactForm s) = scenario_session"
    unfolding s_def by code_simp
  note main = reset_keeps_session [OF submitted]
  from main submitted session show ?thesis
    unfolding s_def by (simp del: step.simps)
qed

text \<open>
  Claim C5 as first stated has a session identity after the reset that differs from the one
  before.  In the same run it is the same.
\<close>

theorem reset_keeps_session_counterexample:
  "isSubmitted (formState (contactForm
     (run [Submit 1000 1001, Settle scenario_ok] (scenario_form scenario_record))))
   \<and> sessionId (contactForm (step Reset
     (run [Submit 1000 1001, Settle scenario_ok] (scenario_form scenario_record)))) =
     sessionId (contactForm
     (run [Submit 1000 1001, Settle scenario_ok] (scenario_form scenario_record)))"
  by code_simp

subsection \<open>The phone is submitted unchecked\<close>

text \<open>
  Claim C6.  \<open>validateForm\<close> does not depend on the phone field.  When the form is shown
  and enabled, every field other than \<open>phone\<close> passes its rule and
  \<open>consent_data_processing\<close> is true, \<open>validateForm\<close> returns the empty object whatever the
  phone field holds, and \<open>handleSubmit\<close> calls \<open>fetch\<close> with a payload whose \<open>form_data\<close> is
  the record, phone included.  The phone input has \<open>type="tel"\<close>, which the browser does not
  check; when the browser lets the e-mail input pass, the submit attempt makes this call.
\<close>

theorem phone_not_validated:
  assumes "form_enabled (contactForm s)"
    and "validateField (F_name (name (formData (contactForm s)))) = Map.empty"
    and "validateField (F_email (email (formData (contactForm s)))) = Map.empty"
    and "validateField (F_company (company (formData (contactForm s)))) = Map.empty"
    and "validateField (F_message (message (formData (contactForm s)))) = Map.empty"
    and "validateField (F_preferred_contact_method
           (preferred_contact_method (formData (contactForm s)))) = Map.empty"
    and "consent_data_processing (formData (contactForm s))"
  shows "validateForm (fd\<lparr>phone := p\<rparr>) = validateForm fd
    \<and> form_checkValidity (fd\<lparr>phone := p\<rparr>) = form_checkValidity fd
    \<and> validateForm (formData (contactForm s)) = Map.empty
    \<and> (\<exists>req. snd (handleSubmit_start t0 t1 (contactForm s)) = Some req
          \<and> form_data (body req) = formData (contactForm s))
    \<and> (form_checkValidity (formData (contactForm s)) \<longrightarrow>
          calls (step (Submit t0 t1) s) = calls s + 1
          \<and> in_flight (step (Submit t0 t1) s) \<noteq> []
          \<and> form_data (body (last (in_flight (step (Submit t0 t1) s)))) =
              formData (contactForm s)
          \<and> phone (form_data (body (last (in_flight (step (Submit t0 t1) s))))) =
              phone (formData (contactForm s)))"
proof -
  have independent: "validateForm (fd\<lparr>phone := p\<rparr>) = validateForm fd"
    unfolding validateForm_unfold by simp
  have same_check: "form_checkValidity (fd\<lparr>phone := p\<rparr>) = form_checkValidity fd"
    by (simp add: form_checkValidity_def)
  have valid: "validateForm (formData (contactForm s)) = Map.empty"
    unfolding validateForm_empty_iff using assms(2-7) by blast
  have handler: "\<exists>req. snd (handleSubmit_start t0 t1 (contactForm s)) = Some req
          \<and> form_data (body req) = formData (contactForm s)"
    unfolding handleSubmit_start_valid [OF valid] by simp
  have pressed: "calls (step (Submit t0 t1) s) = calls s + 1
          \<and> in_flight (step (Submit t0 t1) s) \<noteq> []
          \<and> form_data (body (last (in_flight (step (Submit t0 t1) s)))) =
              formData (contactForm s)
          \<and> phone (form_data (body (last (in_flight (step (Submit t0 t1) s))))) =
              phone (formData (contactForm s))"
    if "form_checkValidity (formData (contactForm s))"
    unfolding step_Submit_valid [OF assms(1) that valid] by simp
  from independent same_check valid handler pressed show ?thesis
    by (simp del: step.simps)
qed

text \<open>
  The record of the scenarios with the phone \<open>abc\<close>, which \<open>validateField\<close> rejects: the
  attempt reaches the transport with \<open>abc\<close> in the payload.
\<close>

theorem phone_not_validated_witness:
  "truthy (validateField (F_phone (phone (formData (contactForm
      (scenario_form (scenario_record\<lparr>phone := js ''abc''\<rparr>)))))) K_phone)
   \<and> form_checkValidity (formData (contactForm
      (scenario_form (scenario_record\<lparr>phone := js ''abc''\<rparr>))))
   \<and> \<not> has_keys (validateForm (formData (contactForm
      (scenario_form (scenario_record\<lparr>phone := js ''abc''\<rparr>)))))
   \<and> calls (step (Submit 1000 1001)
      (scenario_form (scenario_record\<lparr>phone := js ''abc''\<rparr>))) = 1
   \<and> phone (form_data (body (last (in_flight (step (Submit 1000 1001)
      (scenario_form (scenario_record\<lparr>phone := js ''abc''\<rparr>))))))) = js ''abc''"
proof -
  define s where "s = scenario_form (scenario_record\<lparr>phone := js ''abc''\<rparr>)"
  have enabled: "form_enabled (contactForm s)"
    unfolding s_def by code_simp
  have delivered: "form_checkValidity (formData (contactForm s))"
    unfolding s_def by code_simp
  have "\<not> has_keys (validateField (F_name (name (formData (contactForm s)))))"
    unfolding s_def by code_simp
  then have v1: "validateField (F_name (name (formData (contactForm s)))) = Map.empty"
    by (simp only: has_keys_iff not_not)
  have "\<not> has_keys (validateField (F_email (email (formData (contactForm s)))))"
    unfolding s_def by code_simp
  then have v2: "validateField (F_email (email (formData (contactForm s)))) = Map.empty"
    by (simp only: has_keys_iff not_not)
  have "\<not> has_keys (validateField (F_company (company (formData (contactForm s)))))"
    unfolding s_def by code_simp
  then have v3: "validateField (F_company (company (formData (contactForm s)))) = Map.empty"
    by (simp only: has_keys_iff not_not)
  have "\<not> has_keys (validateField (F_message (message (formData (contactForm s)))))"
    unfolding s_def by code_simp
  then have v4: "validateField (F_message (message (formData (contactForm s)))) = Map.empty"
    by (simp only: has_keys_iff not_not)
  have "\<not> has_keys (validateField (F_preferred_contact_method
          (preferred_contact_method (formData (contactForm s)))))"
    unfolding s_def by code_simp
  then have v5: "validateField (F_preferred_contact_method
          (preferred_contact_method (formData (contactForm s)))) = Map.empty"
    by (simp only: has_keys_iff not_not)
  have consent: "consent_data_processing (formData (contactForm s))"
    unfolding s_def by code_simp
  have bad_phone: "truthy (validateField (F_phone (phone (formData (contactForm s)))) K_phone)"
    unfolding s_def by code_simp
  have facts: "calls s = 0 \<and> phone (formData (contactForm s)) = js ''abc''"
    unfolding s_def by code_simp
  note main = phone_not_validated [OF enabled v1 v2 v3 v4 v5 consent, of _ _ 1000 1001]
  have "\<not> has_keys (validateForm (formData (contactForm s)))"
    using main by (simp only: has_keys_iff not_not)
  with main delivered bad_phone facts show ?thesis
    unfolding s_def by (simp del: step.simps validateField.simps)
qed

section \<open>Properties of double rounding\<close>

subsection \<open>The length of a binary numeral\<close>

lemma bits_0 [simp]: "bits 0 = 0"
  by (simp add: bits.simps)

lemma bits_Suc_0 [simp]: "bits (Suc 0) = 1"
  by (simp add: bits.simps)

lemma bits_One [simp]: "bits (numeral Num.One) = 1"
  by simp

lemma bits_Bit0 [simp]: "bits (numeral (Num.Bit0 k)) = Suc (bits (numeral k))"
  by (subst bits.simps) (simp add: numeral_Bit0_div_2)

lemma bits_Bit1 [simp]: "bits (numeral (Num.Bit1 k)) = Suc (bits (numeral k))"
  by (subst bits.simps) (simp add: numeral_Bit1_div_2)

lemma bits_bounds:
  "n \<noteq> 0 \<Longrightarrow> 2 ^ (bits n - 1) \<le> n \<and> n < 2 ^ bits n"
proof (induction n rule: bits.induct)
  case (1 n)
  show ?case
  proof (cases "n div 2 = 0")
    case True
    with "1.prems" have "n = 1" by (cases n) auto
    then show ?thesis by simp
  next
    case False
    with "1.IH" "1.prems" have IH: "2 ^ (bits (n div 2) - 1) \<le> n div 2" "n div 2 < 2 ^ bits (n div 2)"
      by simp_all
    have step: "bits n = Suc (bits (n div 2))"
      using "1.prems" by (subst bits.simps) simp
    have pos: "bits (n div 2) \<noteq> 0"
      using False by (subst bits.simps) simp
    then have "(2::nat) ^ bits (n div 2) = 2 * 2 ^ (bits (n div 2) - 1)"
      by (cases "bits (n div 2)") simp_all
    with IH show ?thesis
      unfolding step by simp linarith
  qed
qed

lemma bits_le: "n < 2 ^ k \<Longrightarrow> bits n \<le> k"
proof (rule ccontr)
  assume less: "n < 2 ^ k" and "\<not> bits n \<le> k"
  then have "k \<le> bits n - 1" "n \<noteq> 0"
    by (auto simp: not_le intro: ccontr)
  then have "(2::nat) ^ k \<le> 2 ^ (bits n - 1)" "2 ^ (bits n - 1) \<le> n"
    using bits_bounds [of n] by (simp_all add: power_increasing)
  with less show False by simp
qed

lemma bits_gt: "2 ^ k \<le> n \<Longrightarrow> k < bits n"
proof (rule ccontr)
  assume ge: "2 ^ k \<le> n" and "\<not> k < bits n"
  then have "bits n \<le> k" by simp
  have "n \<noteq> 0"
    using ge by (auto intro: ccontr)
  with \<open>bits n \<le> k\<close> have "n < 2 ^ bits n" "(2::nat) ^ bits n \<le> 2 ^ k"
    using bits_bounds [of n] by (simp_all add: power_increasing)
  with ge show False by simp
qed

lemma bits_eq: "2 ^ k \<le> n \<Longrightarrow> n < 2 ^ Suc k \<Longrightarrow> bits n = Suc k"
  using bits_le [of n "Suc k"] bits_gt [of k n] by simp

subsection \<open>\<open>round53\<close> rounds to a nearest double\<close>

lemma round53_parts:
  assumes "53 < bits n"
  shows "2 ^ 52 \<le> n div 2 ^ (bits n - 53)" and "n div 2 ^ (bits n - 53) < 2 ^ 53"
proof -
  let ?s = "bits n - 53"
  have n0: "n \<noteq> 0"
    using assms by (auto intro: ccontr)
  have split: "bits n - 1 = 52 + ?s" "bits n = 53 + ?s"
    using assms by simp_all
  have "2 ^ 52 * 2 ^ ?s \<le> n"
    using bits_bounds [OF n0] unfolding split(1) by (simp add: power_add)
  then have "(2 ^ 52 * 2 ^ ?s) div 2 ^ ?s \<le> n div 2 ^ ?s"
    by (rule div_le_mono)
  then show "2 ^ 52 \<le> n div 2 ^ ?s"
    by simp
  have "n < 2 ^ 53 * 2 ^ ?s"
    using bits_bounds [OF n0] split(2) by (metis power_add)
  then show "n div 2 ^ ?s < 2 ^ 53"
    by (simp add: less_mult_imp_div_less)
qed

lemma no_double_between:
  assumes "is_double d" and "2 ^ 52 \<le> q" and "q < 2 ^ 53" and "0 < s"
    and "q * 2 ^ s < d" and "d < (q + 1) * 2 ^ s"
  shows False
proof -
  have "2 ^ 52 * 2 ^ s \<le> q * 2 ^ s"
    using assms(2) by (rule mult_le_mono1)
  then have "2 ^ (52 + s) \<le> q * 2 ^ s"
    by (simp only: power_add)
  with assms(5) have lower: "2 ^ (52 + s) \<le> d"
    by (meson le_less_trans less_imp_le)
  have "(q + 1) * 2 ^ s \<le> 2 ^ 53 * 2 ^ s"
    using assms(3) by (intro mult_le_mono1) simp
  with assms(6) have "d < 2 ^ 53 * 2 ^ s"
    by (rule less_le_trans)
  moreover have "(2::nat) ^ 53 * 2 ^ s = 2 ^ Suc (52 + s)"
    by (simp add: power_add)
  ultimately have upper: "d < 2 ^ Suc (52 + s)"
    by (simp only:)
  have "bits d = Suc (52 + s)"
    using lower upper by (rule bits_eq)
  with assms(1,4) have "d mod 2 ^ s = 0"
    by (simp add: is_double_def)
  then have "2 ^ s dvd d"
    by (simp add: dvd_eq_mod_eq_0)
  then obtain j where j: "d = j * 2 ^ s"
    by (auto simp: dvd_def mult.commute)
  from assms(5) have "q < j"
    unfolding j by (rule mult_less_cancel2 [THEN iffD1, THEN conjunct2])
  moreover from assms(6) have "j < q + 1"
    unfolding j by (rule mult_less_cancel2 [THEN iffD1, THEN conjunct2])
  ultimately show False
    by simp
qed

lemma round53_nearest:
  assumes "is_double d"
  shows "\<bar>int (round53 n) - int n\<bar> \<le> \<bar>int d - int n\<bar>"
proof (cases "bits n \<le> 53")
  case True
  then show ?thesis by (simp add: round53_def)
next
  case False
  define s where "s = bits n - 53"
  define q where "q = n div 2 ^ s"
  define r where "r = n mod 2 ^ s"
  define P :: nat where "P = 2 ^ s"
  from False have s: "0 < s" and big: "53 < bits n"
    by (simp_all add: s_def)
  have q: "2 ^ 52 \<le> q" "q < 2 ^ 53"
    using round53_parts [OF big] by (simp_all add: q_def s_def)
  define X where "X = q * P"
  have n: "n = X + r"
    unfolding X_def q_def r_def P_def by (rule div_mult_mod_eq [symmetric])
  have r: "r < P"
    by (simp add: r_def P_def)
  have outside: "d \<le> X \<or> X + P \<le> d"
  proof (rule ccontr)
    assume "\<not> (d \<le> X \<or> X + P \<le> d)"
    then have "q * 2 ^ s < d" "d < (q + 1) * 2 ^ s"
      by (simp_all add: X_def P_def)
    with assms q s show False
      by (rule no_double_between)
  qed
  have res: "round53 n = (if P < 2 * r \<or> (2 * r = P \<and> odd q) then X + P else X)"
    using False by (simp add: round53_def Let_def s_def q_def r_def P_def X_def)
  show ?thesis
  proof (cases "P < 2 * r \<or> (2 * r = P \<and> odd q)")
    case True
    then have "round53 n = X + P" and "P \<le> 2 * r"
      using res by auto
    with outside n r show ?thesis
      by auto
  next
    case False
    then have "round53 n = X" and "2 * r \<le> P"
      using res by auto
    with outside n r show ?thesis
      by auto
  qed
qed

subsection \<open>Doubles and their neighbours\<close>

lemma bits_scaled: "m \<noteq> 0 \<Longrightarrow> bits (m * 2 ^ k) = bits m + k"
proof -
  assume m: "m \<noteq> 0"
  then obtain b where b: "bits m = Suc b"
    using bits_gt [of 0 m] by (cases "bits m") auto
  from bits_bounds [OF m] have "2 ^ b \<le> m" "m < 2 ^ Suc b"
    by (simp_all add: b)
  then have "2 ^ b * 2 ^ k \<le> m * 2 ^ k" "m * 2 ^ k < 2 ^ Suc b * 2 ^ k"
    by simp_all
  then have "2 ^ (b + k) \<le> m * 2 ^ k" "m * 2 ^ k < 2 ^ Suc (b + k)"
    by (simp_all add: power_add)
  then have "bits (m * 2 ^ k) = Suc (b + k)"
    by (rule bits_eq)
  with b show ?thesis by simp
qed

lemma is_double_scaled:
  assumes "m < 2 ^ 53"
  shows "is_double (m * 2 ^ k)"
proof (cases "m = 0")
  case True
  then show ?thesis by (simp add: is_double_def)
next
  case False
  have small: "bits m \<le> 53"
    using assms by (rule bits_le)
  have "bits (m * 2 ^ k) = bits m + k"
    using False by (rule bits_scaled)
  moreover have "(2::nat) ^ (bits m + k - 53) dvd 2 ^ k"
    using small by (intro le_imp_power_dvd) simp
  then have "2 ^ (bits m + k - 53) dvd m * 2 ^ k"
    by (rule dvd_mult)
  ultimately show ?thesis
    by (simp add: is_double_def dvd_eq_mod_eq_0)
qed

lemma is_double_round53: "is_double (round53 n)"
proof (cases "bits n \<le> 53")
  case True
  then show ?thesis by (simp add: round53_def is_double_def)
next
  case False
  define s where "s = bits n - 53"
  define q where "q = n div 2 ^ s"
  from False have big: "53 < bits n" by simp
  have q: "q < 2 ^ 53"
    using round53_parts(2) [OF big] by (simp add: q_def s_def)
  have "round53 n = q * 2 ^ s \<or> round53 n = (q + 1) * 2 ^ s"
    using False by (auto simp: round53_def Let_def s_def q_def)
  then show ?thesis
  proof
    assume "round53 n = q * 2 ^ s"
    with q show ?thesis by (simp only: is_double_scaled)
  next
    assume up: "round53 n = (q + 1) * 2 ^ s"
    show ?thesis
    proof (cases "q + 1 < 2 ^ 53")
      case True
      with up show ?thesis by (simp only: is_double_scaled)
    next
      case False
      with q have "q + 1 = 2 ^ 53" by simp
      then have "round53 n = 1 * 2 ^ (53 + s)"
        unfolding up by (simp only: power_add mult_1)
      moreover have "is_double (1 * 2 ^ (53 + s))"
        by (rule is_double_scaled) simp
      ultimately show ?thesis by (simp only:)
    qed
  qed
qed

lemma round53_exact: "n < 2 ^ 53 \<Longrightarrow> round53 n = n"
  by (simp add: round53_def bits_le)

lemma round53_fixes_double: "is_double n \<Longrightarrow> round53 n = n"
  using round53_nearest [of n n] by simp

text \<open>Adding a small integer to an integer-valued double.\<close>

lemma round53_add:
  assumes "is_double e"
  shows "e \<le> round53 (e + k)" and "round53 (e + k) \<le> e + 2 * k"
  using round53_nearest [OF assms, of "e + k"] by simp_all

text \<open>The largest double below \<open>2 ^ p\<close>.\<close>

lemma double_below_power:
  assumes "is_double n" and "n < 2 ^ (53 + k)"
  shows "n + 2 ^ k \<le> 2 ^ (53 + k)"
proof (cases "n < 2 ^ (52 + k)")
  case True
  have "(2::nat) ^ k \<le> 2 ^ (52 + k)"
    by (rule power_increasing) simp_all
  moreover have "(2::nat) ^ (53 + k) = 2 ^ (52 + k) + 2 ^ (52 + k)"
    by (simp add: power_add)
  ultimately show ?thesis
    using True by linarith
next
  case False
  then have "2 ^ (52 + k) \<le> n" by simp
  moreover from assms(2) have "n < 2 ^ Suc (52 + k)" by simp
  ultimately have "bits n = Suc (52 + k)"
    by (rule bits_eq)
  with assms(1) have "2 ^ k dvd n"
    by (cases "k = 0") (simp_all add: is_double_def dvd_eq_mod_eq_0)
  then obtain j where j: "n = j * 2 ^ k"
    by (auto simp: dvd_def mult.commute)
  from assms(2) have "j * 2 ^ k < 2 ^ 53 * 2 ^ k"
    unfolding j by (simp only: power_add)
  then have "j < 2 ^ 53"
    by (rule mult_less_cancel2 [THEN iffD1, THEN conjunct2])
  then have "j + 1 \<le> 2 ^ 53" by simp
  then have "(j + 1) * 2 ^ k \<le> 2 ^ 53 * 2 ^ k"
    by (rule mult_le_mono1)
  then show ?thesis
    unfolding j by (simp add: power_add)
qed

text \<open>
  Rounding sees the binary digits only, not where the binary point is: both the doubles and
  \<open>round53\<close> commute with a shift.  So a whole number can be rounded as it stands.
\<close>

lemma is_double_scale:
  assumes "is_double n"
  shows "is_double (n * 2 ^ k)"
proof (cases "n = 0")
  case True
  then show ?thesis by (simp add: is_double_def)
next
  case False
  then have len: "bits (n * 2 ^ k) = bits n + k"
    by (rule bits_scaled)
  show ?thesis
  proof (cases "bits n \<le> 53")
    case True
    then have "n < 2 ^ 53"
      using bits_bounds [OF False] by (meson less_le_trans power_increasing one_le_numeral)
    then show ?thesis
      by (rule is_double_scaled)
  next
    case long: False
    with assms have "2 ^ (bits n - 53) dvd n"
      by (simp add: is_double_def dvd_eq_mod_eq_0)
    then have "2 ^ (bits n - 53) * 2 ^ k dvd n * 2 ^ k"
      by (rule mult_dvd_mono) simp
    moreover have "bits n + k - 53 = (bits n - 53) + k"
      using long by simp
    ultimately have "2 ^ (bits n + k - 53) dvd n * 2 ^ k"
      by (simp add: power_add)
    then show ?thesis
      unfolding is_double_def len by (simp add: dvd_eq_mod_eq_0)
  qed
qed

lemma round53_scale: "round53 (n * 2 ^ k) = round53 n * 2 ^ k"
proof (cases "bits n \<le> 53")
  case True
  then have "is_double n"
    by (simp add: is_double_def)
  then have "is_double (n * 2 ^ k)"
    by (rule is_double_scale)
  then have "round53 (n * 2 ^ k) = n * 2 ^ k"
    by (rule round53_fixes_double)
  with True show ?thesis
    by (simp add: round53_def)
next
  case False
  then have n0: "n \<noteq> 0"
    by (auto intro: ccontr)
  define s where "s = bits n - 53"
  have len: "bits (n * 2 ^ k) = bits n + k"
    using n0 by (rule bits_scaled)
  have shift: "bits (n * 2 ^ k) - 53 = s + k"
    unfolding len s_def using False by simp
  have pow: "(2::nat) ^ (s + k) = 2 ^ s * 2 ^ k"
    by (rule power_add)
  have q: "(n * 2 ^ k) div (2 ^ s * 2 ^ k) = n div 2 ^ s"
    by simp
  have r: "(n * 2 ^ k) mod (2 ^ s * 2 ^ k) = (n mod 2 ^ s) * 2 ^ k"
    by simp
  have long: "\<not> bits (n * 2 ^ k) \<le> 53"
    unfolding len using False by simp
  have up: "(2 ^ s * 2 ^ k < 2 * ((n mod 2 ^ s) * 2 ^ k)) = (2 ^ s < 2 * (n mod 2 ^ s))"
    "(2 * ((n mod 2 ^ s) * 2 ^ k) = 2 ^ s * 2 ^ k) = (2 * (n mod 2 ^ s) = 2 ^ s)"
    by simp_all
  show ?thesis
    using False long
    by (simp add: round53_def Let_def shift pow q r up s_def [symmetric] del: mult_cancel2)
       (simp add: algebra_simps)
qed

text \<open>The constant \<open>double_0_1\<close> is a double and lies within half a unit in the last place of one tenth.\<close>

lemma double_0_1_nearest:
  "is_double double_0_1 \<and> bits double_0_1 = 1071 \<and> 2 ^ 1074 \<le> 10 * double_0_1
   \<and> 2 * (10 * double_0_1 - 2 ^ 1074) < 10 * 2 ^ (1071 - 53)"
proof -
  have "is_double double_0_1"
    unfolding double_0_1_def by (rule is_double_scaled) simp
  moreover have "bits double_0_1 = 1071"
    unfolding double_0_1_def by (subst bits_scaled) simp_all
  moreover have "10 * double_0_1 = 2 ^ 1074 + 4 * 2 ^ 1018"
    by (simp add: double_0_1_def)
  ultimately show ?thesis
    by simp
qed

subsection \<open>The products of the tick stay below 3 and below 100\<close>

lemma round53_below:
  assumes "is_double d" and "d < b" and "2 * n < b + d"
  shows "round53 n < b"
  using round53_nearest [OF assms(1), of n] assms(2,3) by linarith

lemma times_3_below:
  assumes "is_double r" and "r < 2 ^ (53 + k)"
  shows "round53 (r * 3) < 3 * 2 ^ (53 + k)"
proof -
  define u :: nat where "u = 2 ^ k"
  have pow: "(2::nat) ^ (53 + k) = 9007199254740992 * u"
    by (simp add: power_add u_def)
  have u: "0 < u"
    by (simp add: u_def)
  have r: "r + u \<le> 9007199254740992 * u"
    using double_below_power [OF assms] unfolding pow u_def .
  have "is_double (6755399441055743 * 2 ^ (k + 2))"
    by (rule is_double_scaled) simp
  moreover have "6755399441055743 * 2 ^ (k + 2) = 27021597764222972 * u"
    by (simp add: power_add u_def)
  ultimately have d: "is_double (27021597764222972 * u)"
    by (simp only:)
  show ?thesis
    unfolding pow
    by (rule round53_below [OF d]) (use r u in linarith)+
qed

lemma times_100_below:
  assumes "is_double r" and "r < 2 ^ (53 + k)"
  shows "round53 (r * 100) < 100 * 2 ^ (53 + k)"
proof -
  define u :: nat where "u = 2 ^ k"
  have pow: "(2::nat) ^ (53 + k) = 9007199254740992 * u"
    by (simp add: power_add u_def)
  have u: "0 < u"
    by (simp add: u_def)
  have r: "r + u \<le> 9007199254740992 * u"
    using double_below_power [OF assms] unfolding pow u_def .
  have "is_double (7036874417766399 * 2 ^ (k + 7))"
    by (rule is_double_scaled) simp
  moreover have "7036874417766399 * 2 ^ (k + 7) = 900719925474099072 * u"
    by (simp add: power_add u_def)
  ultimately have d: "is_double (900719925474099072 * u)"
    by (simp only:)
  show ?thesis
    unfolding pow
    by (rule round53_below [OF d]) (use r u in linarith)+
qed

lemma floor_times_3: "is_random r \<Longrightarrow> Math_floor (round53 (r * 3)) \<le> 2"
proof -
  assume "is_random r"
  then have "round53 (r * 3) < 3 * 2 ^ (53 + 1021)"
    by (intro times_3_below) (simp_all add: is_random_def)
  then have "round53 (r * 3) div 2 ^ (53 + 1021) < 3"
    by (rule less_mult_imp_div_less)
  then show ?thesis
    by (simp add: Math_floor_def)
qed

lemma floor_times_100: "is_random r \<Longrightarrow> Math_floor (round53 (r * 100)) \<le> 99"
proof -
  assume "is_random r"
  then have "round53 (r * 100) < 100 * 2 ^ (53 + 1021)"
    by (intro times_100_below) (simp_all add: is_random_def)
  then have "round53 (r * 100) div 2 ^ (53 + 1021) < 100"
    by (rule less_mult_imp_div_less)
  then show ?thesis
    by (simp add: Math_floor_def)
qed

subsection \<open>Three products worked out\<close>

text \<open>The draws 0.5, 0.24 and 0.75.\<close>

lemma floor_half: "Math_floor (round53 (2 ^ 1073 * 3)) = 1"
proof -
  have "round53 (3 * 2 ^ 1073) = round53 3 * 2 ^ 1073"
    by (rule round53_scale)
  then have "round53 (2 ^ 1073 * 3) = 3 * 2 ^ 1073"
    by (simp add: round53_exact mult.commute)
  then show ?thesis
    by (simp add: Math_floor_def)
qed

lemma floor_band: "Math_floor (round53 (1080863910568919 * 2 ^ 1022 * 100)) = 24"
proof -
  have "round53 (108086391056891900 * 2 ^ 1022) = round53 108086391056891900 * 2 ^ 1022"
    by (rule round53_scale)
  moreover have "round53 108086391056891900 = 108086391056891904"
    by (simp add: round53_def Let_def)
  moreover have "(1080863910568919::nat) * 2 ^ 1022 * 100 = 108086391056891900 * 2 ^ 1022"
    by simp
  ultimately have "round53 (1080863910568919 * 2 ^ 1022 * 100) = 108086391056891904 * 2 ^ 1022"
    by (simp only:)
  then show ?thesis
    by (simp add: Math_floor_def)
qed

lemma floor_three_quarters: "Math_floor (round53 (3 * 2 ^ 1072 * 3)) = 2"
proof -
  have "round53 (9 * 2 ^ 1072) = round53 9 * 2 ^ 1072"
    by (rule round53_scale)
  moreover have "(3::nat) * 2 ^ 1072 * 3 = 9 * 2 ^ 1072"
    by simp
  ultimately have "round53 (3 * 2 ^ 1072 * 3) = 9 * 2 ^ 1072"
    by (simp add: round53_exact)
  then show ?thesis
    by (simp add: Math_floor_def)
qed

section \<open>Properties of the telemetry simulator\<close>

text \<open>
  Claim C10.  For draws of \<open>Math.random()\<close> that are doubles from 0 (included) to 1
  (excluded) and a count that is a double, a tick never lowers \<open>eventsProcessed\<close>: it adds
  0, 1 or 2 in double arithmetic, which is exact below \<open>2 ^ 53\<close> and beyond raises the
  count by at most 4, and the new count is again a double.  \<open>avgResponseTime\<close> is set to an
  integer from 150 to 249 and \<open>systemHealth\<close> to \<open>healthy\<close> or \<open>degraded\<close>.  The new
  \<open>avgResponseTime\<close> and \<open>systemHealth\<close> depend on the draws alone, the new
  \<open>eventsProcessed\<close> on the draws and the old count: the tick reads nothing else.
\<close>

theorem tick_invariant:
  assumes "is_random r1" and "is_random r2" and "is_double (eventsProcessed prev)"
  shows "Math_floor (round53 (r1 * 3)) \<le> 2
    \<and> eventsProcessed prev \<le> eventsProcessed (tick r1 r2 r3 prev)
    \<and> eventsProcessed (tick r1 r2 r3 prev) \<le> eventsProcessed prev + 4
    \<and> (eventsProcessed prev + 2 < 2 ^ 53 \<longrightarrow>
          eventsProcessed (tick r1 r2 r3 prev) =
          eventsProcessed prev + Math_floor (round53 (r1 * 3)))
    \<and> is_double (eventsProcessed (tick r1 r2 r3 prev))
    \<and> 150 \<le> avgResponseTime (tick r1 r2 r3 prev)
    \<and> avgResponseTime (tick r1 r2 r3 prev) \<le> 249
    \<and> (systemHealth (tick r1 r2 r3 prev) = js ''healthy''
        \<or> systemHealth (tick r1 r2 r3 prev) = js ''degraded'')
    \<and> avgResponseTime (tick r1 r2 r3 prev) = avgResponseTime (tick r1 r2 r3 prev')
    \<and> systemHealth (tick r1 r2 r3 prev) = systemHealth (tick r1 r2 r3 prev')"
proof -
  define inc where "inc = Math_floor (round53 (r1 * 3))"
  define k where "k = Math_floor (round53 (r2 * 100))"
  have inc: "inc \<le> 2"
    unfolding inc_def using assms(1) by (rule floor_times_3)
  have k: "k \<le> 99"
    unfolding k_def using assms(2) by (rule floor_times_100)
  have count: "eventsProcessed (tick r1 r2 r3 prev) = round53 (eventsProcessed prev + inc)"
    by (simp add: tick_def inc_def)
  have lower: "eventsProcessed prev \<le> round53 (eventsProcessed prev + inc)"
    using assms(3) by (rule round53_add(1))
  have "round53 (eventsProcessed prev + inc) \<le> eventsProcessed prev + 2 * inc"
    using assms(3) by (rule round53_add(2))
  with inc have upper: "round53 (eventsProcessed prev + inc) \<le> eventsProcessed prev + 4"
    by simp
  have exact: "round53 (eventsProcessed prev + inc) = eventsProcessed prev + inc"
    if "eventsProcessed prev + 2 < 2 ^ 53"
    using that inc by (intro round53_exact) simp
  have double: "is_double (round53 (eventsProcessed prev + inc))"
    by (rule is_double_round53)
  have "150 + k < 2 ^ 53"
    using k by simp
  then have "round53 (150 + k) = 150 + k"
    by (rule round53_exact)
  then have avg: "avgResponseTime (tick r1 r2 r3 prev) = 150 + k"
    "avgResponseTime (tick r1 r2 r3 prev') = 150 + k"
    by (simp_all add: tick_def k_def)
  have health: "systemHealth (tick r1 r2 r3 prev) = js ''healthy''
        \<or> systemHealth (tick r1 r2 r3 prev) = js ''degraded''"
    "systemHealth (tick r1 r2 r3 prev) = systemHealth (tick r1 r2 r3 prev')"
    by (simp_all add: tick_def)
  from inc lower upper exact double k avg health show ?thesis
    unfolding count inc_def [symmetric] by simp
qed

text \<open>
  The first tick after mounting with the draws 0.5, 0.24 and 0.1: the product of 0.24 and
  100 rounds up to 24.000000000000004, and 0.1 is not greater than 0.1.  And a tick at the
  count \<open>2 ^ 54 + 4\<close> with the draw 0.75: the sum with 2 lies halfway between two doubles and
  rounds to \<open>2 ^ 54 + 8\<close>.
\<close>

theorem tick_invariant_witness:
  "is_random (2 ^ 1073) \<and> is_random (1080863910568919 * 2 ^ 1022) \<and> is_random double_0_1
   \<and> eventsProcessed (tick (2 ^ 1073) (1080863910568919 * 2 ^ 1022) double_0_1 initial_stats) = 1
   \<and> avgResponseTime (tick (2 ^ 1073) (1080863910568919 * 2 ^ 1022) double_0_1 initial_stats) = 174
   \<and> systemHealth (tick (2 ^ 1073) (1080863910568919 * 2 ^ 1022) double_0_1 initial_stats) =
       js ''degraded''
   \<and> is_double (2 ^ 54 + 4) \<and> is_random (3 * 2 ^ 1072)
   \<and> eventsProcessed (tick (3 * 2 ^ 1072) (2 ^ 1073) (2 ^ 1073)
        \<lparr>eventsProcessed = 2 ^ 54 + 4, avgResponseTime = 174, systemHealth = js ''degraded''\<rparr>) =
       2 ^ 54 + 8"
proof -
  have r1: "is_random (2 ^ 1073)"
    using is_double_scaled [of 1 1073] by (simp add: is_random_def)
  have r2: "is_random (1080863910568919 * 2 ^ 1022)"
    using is_double_scaled [of 1080863910568919 1022] by (simp add: is_random_def)
  have r3: "is_random double_0_1"
    using is_double_scaled [of 3602879701896397 1019] by (simp add: is_random_def double_0_1_def)
  have start: "is_double (eventsProcessed initial_stats)"
    by (simp add: initial_stats_def is_double_def)
  note first = tick_invariant [OF r1 r2 start, of double_0_1 initial_stats]
  note inc = floor_half
  note band = floor_band
  have count: "eventsProcessed
      (tick (2 ^ 1073) (1080863910568919 * 2 ^ 1022) double_0_1 initial_stats) = 1"
    using first inc by (simp add: initial_stats_def)
  have avg: "avgResponseTime
      (tick (2 ^ 1073) (1080863910568919 * 2 ^ 1022) double_0_1 initial_stats) = 174"
    unfolding tick_def band by (simp add: round53_exact)
  have health: "systemHealth
      (tick (2 ^ 1073) (1080863910568919 * 2 ^ 1022) double_0_1 initial_stats) = js ''degraded''"
    by (simp add: tick_def)
  have "is_double (4503599627370497 * 2 ^ 2)"
    by (rule is_double_scaled) simp
  then have big: "is_double (2 ^ 54 + 4)"
    by simp
  have r4: "is_random (3 * 2 ^ 1072)"
    using is_double_scaled [of 3 1072] by (simp add: is_random_def)
  define high where "high =
    \<lparr>eventsProcessed = 2 ^ 54 + 4, avgResponseTime = 174, systemHealth = js ''degraded''\<rparr>"
  have "is_double (eventsProcessed high)"
    using big by (simp add: high_def)
  note second = tick_invariant [OF r4 r1 this, of "2 ^ 1073" high]
  note inc2 = floor_three_quarters
  have "round53 (2 ^ 54 + 4 + 2) = 2 ^ 54 + 8"
    by (simp add: round53_def Let_def)
  with inc2 have jump: "eventsProcessed (tick (3 * 2 ^ 1072) (2 ^ 1073) (2 ^ 1073) high) = 2 ^ 54 + 8"
    by (simp add: tick_def high_def)
  from second jump have "eventsProcessed (tick (3 * 2 ^ 1072) (2 ^ 1073) (2 ^ 1073) high) \<le>
      eventsProcessed high + 4"
    by blast
  with r1 r2 r3 count avg health big r4 jump show ?thesis
    unfolding high_def by blast
qed

end
